theory Spec2Isabelle
  imports Complex_Main "HOL-Library.Log_Nat"
begin

section \<open>limittar: predicting the size of a GNU tar archive\<close>

text \<open>
  A shallow embedding of \<^verbatim>\<open>limittar/__init__.py\<close>: the two size estimators
  \<^verbatim>\<open>determine_tar_file_size\<close> and \<^verbatim>\<open>determine_tar_archive_size\<close>, the admission
  method \<^verbatim>\<open>LimitTar.add_path\<close>, the property \<^verbatim>\<open>LimitTar.size\<close> and the generator
  \<^verbatim>\<open>LimitTar.add_paths\<close>.

  Exceptions are values of \<open>py_error\<close>. A function that can raise returns
  \<open>py_error + 'a\<close>; a method that mutates \<^verbatim>\<open>self\<close> returns the exception it raised,
  if any, together with the object as it is left behind.
\<close>

datatype py_error =
    OSError | SizeLimitReached | Underrun | ZeroDivisionError | OverflowError
  | UnicodeEncodeError | ValueError

subsection \<open>Python's true division of integers\<close>

text \<open>
  All three roundings of the source go through \<^verbatim>\<open>/\<close>, which on two Python integers
  yields the binary64 float nearest to the exact quotient (round half to even), raises
  \<^verbatim>\<open>ZeroDivisionError\<close> for a zero divisor and \<^verbatim>\<open>OverflowError\<close> when the rounded quotient
  does not fit a float. A finite float is represented by the rational it denotes.

  \<open>floor_log2 x\<close> is the binary exponent of a positive rational, \<open>ulp_exponent x\<close> the
  exponent of the last of the 53 significand bits (bounded below by the subnormal
  exponent \<open>-1074\<close>), and \<open>round_binary64 x\<close> the nearest multiple of
  \<open>2 powi ulp_exponent x\<close>.
\<close>

definition floor_log2 :: "rat \<Rightarrow> int" where
  "floor_log2 x = (if 1 \<le> x then bitlen \<lfloor>x\<rfloor> - 1 else - bitlen (\<lceil>1 / x\<rceil> - 1))"

definition round_half_even :: "rat \<Rightarrow> int" where
  "round_half_even x =
     (let f = \<lfloor>x\<rfloor>; r = x - of_int f
      in if r < 1 / 2 then f else if 1 / 2 < r then f + 1 else if even f then f else f + 1)"

definition ulp_exponent :: "rat \<Rightarrow> int" where
  "ulp_exponent x = max (floor_log2 x - 52) (- 1074)"

definition round_binary64 :: "rat \<Rightarrow> rat" where
  "round_binary64 x =
     (if x = 0 then 0
      else let e = ulp_exponent \<bar>x\<bar>
           in sgn x * of_int (round_half_even (\<bar>x\<bar> / 2 powi e)) * 2 powi e)"

definition py_truediv :: "int \<Rightarrow> int \<Rightarrow> py_error + rat" where
  "py_truediv a b =
     (if b = 0 then Inl ZeroDivisionError
      else let y = round_binary64 (of_int a / of_int b)
           in if 2 ^ 1024 \<le> \<bar>y\<bar> then Inl OverflowError else Inr y)"

text \<open>\<^verbatim>\<open>math.ceil\<close> of a float, \<^verbatim>\<open>math.ceil\<close> of an integer (the integer itself) and
  \<^verbatim>\<open>int\<close> of a float (truncation towards zero).\<close>

definition math_ceil :: "rat \<Rightarrow> int" where
  "math_ceil y = \<lceil>y\<rceil>"

definition math_ceil_int :: "int \<Rightarrow> int" where
  "math_ceil_int n = n"

definition int_of_float :: "rat \<Rightarrow> int" where
  "int_of_float y = (if 0 \<le> y then \<lfloor>y\<rfloor> else \<lceil>y\<rceil>)"

subsection \<open>The file system seen through \<^verbatim>\<open>os.path\<close>\<close>

text \<open>
  A path is a byte string. The file system maps a path to the entry stored under it;
  no name of a file system holds a NUL byte, so nothing is stored under a path that
  holds one. \<^verbatim>\<open>os.path.getsize\<close> and \<^verbatim>\<open>os.path.isfile\<close> both call \<^verbatim>\<open>os.stat\<close>, which
  follows symbolic links (at most \<open>MAXSYMLINKS\<close> of them) and fails for a missing entry,
  a dangling or cyclic link, and a path of \<open>PATH_MAX\<close> bytes or more. The failure is an
  \<^verbatim>\<open>OSError\<close>, except for a path that holds a NUL byte: Python refuses such a path with
  \<^verbatim>\<open>ValueError\<close> (embedded null byte), which is not an \<^verbatim>\<open>OSError\<close>. \<^verbatim>\<open>os.path.isfile\<close>
  catches both and answers \<^verbatim>\<open>False\<close>. A link's target is kept as the path it resolves
  to. The file system does not change while the functions below run.
\<close>

type_synonym bytes = "char list"

datatype inode = RegularFile nat | Directory nat | Symlink bytes | Special nat

type_synonym filesystem = "bytes \<Rightarrow> inode option"

definition PATH_MAX :: nat where
  "PATH_MAX = 4096"

definition MAXSYMLINKS :: nat where
  "MAXSYMLINKS = 40"

definition stat_error :: "bytes \<Rightarrow> py_error" where
  "stat_error path = (if CHR 0x00 \<in> set path then ValueError else OSError)"

fun os_stat_follow :: "filesystem \<Rightarrow> nat \<Rightarrow> bytes \<Rightarrow> py_error + inode" where
  "os_stat_follow fs 0 path = Inl (stat_error path)"
| "os_stat_follow fs (Suc k) path =
     (if PATH_MAX \<le> length path then Inl (stat_error path)
      else case fs path of
             None \<Rightarrow> Inl (stat_error path)
           | Some (Symlink target) \<Rightarrow> os_stat_follow fs k target
           | Some node \<Rightarrow> Inr node)"

definition os_stat :: "filesystem \<Rightarrow> bytes \<Rightarrow> py_error + inode" where
  "os_stat fs path = os_stat_follow fs (Suc MAXSYMLINKS) path"

fun st_size :: "inode \<Rightarrow> nat" where
  "st_size (RegularFile n) = n"
| "st_size (Directory n) = n"
| "st_size (Symlink target) = length target"
| "st_size (Special n) = n"

definition os_path_getsize :: "filesystem \<Rightarrow> bytes \<Rightarrow> py_error + int" where
  "os_path_getsize fs path =
     (case os_stat fs path of Inl e \<Rightarrow> Inl e | Inr node \<Rightarrow> Inr (int (st_size node)))"

definition os_path_isfile :: "filesystem \<Rightarrow> bytes \<Rightarrow> bool" where
  "os_path_isfile fs path =
     (case os_stat fs path of Inr (RegularFile n) \<Rightarrow> True | _ \<Rightarrow> False)"

subsection \<open>\<^verbatim>\<open>determine_tar_file_size\<close>\<close>

text \<open>
  The function is modelled on a \<^verbatim>\<open>bytes\<close> argument, which is what \<^verbatim>\<open>add_path\<close> passes:
  there \<^verbatim>\<open>path.encode()\<close> raises \<^verbatim>\<open>AttributeError\<close>, the bare \<^verbatim>\<open>except\<close> swallows it and
  \<^verbatim>\<open>path\<close> stays as it is.

  The source starts from \<^verbatim>\<open>size = 512\<close> and has two statements that add to it.
  \<open>long_name_size\<close> is what the statement under \<^verbatim>\<open>if path_size > 100\<close> adds,
  \<open>file_data_size\<close> what the statements from \<^verbatim>\<open>os.path.getsize\<close> on add; they run in
  this order, and the first exception ends the call.
\<close>

definition long_name_size :: "int \<Rightarrow> py_error + int" where
  "long_name_size path_size =
     (if path_size > 100
      then (case py_truediv path_size 512 of
              Inl e \<Rightarrow> Inl e
            | Inr q \<Rightarrow> Inr (512 + 512 * math_ceil q))
      else Inr 0)"

definition file_data_size :: "filesystem \<Rightarrow> bytes \<Rightarrow> py_error + int" where
  "file_data_size fs path =
     (case os_path_getsize fs path of
        Inl e \<Rightarrow> Inl e
      | Inr file_size \<Rightarrow>
          if os_path_isfile fs path
          then (case py_truediv (math_ceil_int file_size) 512 of
                  Inl e \<Rightarrow> Inl e
                | Inr q \<Rightarrow> Inr (512 * int_of_float q))
          else Inr 0)"

definition determine_tar_file_size :: "filesystem \<Rightarrow> bytes \<Rightarrow> py_error + int" where
  "determine_tar_file_size fs path =
     (case long_name_size (int (length path)) of
        Inl e \<Rightarrow> Inl e
      | Inr name_size \<Rightarrow>
          (case file_data_size fs path of
             Inl e \<Rightarrow> Inl e
           | Inr data \<Rightarrow> Inr (512 + name_size + data)))"

subsection \<open>\<^verbatim>\<open>determine_tar_archive_size\<close>\<close>

definition determine_tar_archive_size :: "int \<Rightarrow> int \<Rightarrow> py_error + int" where
  "determine_tar_archive_size tar_data_size bufsize =
     (case py_truediv (tar_data_size + 512 * 2) bufsize of
        Inl e \<Rightarrow> Inl e
      | Inr q \<Rightarrow> Inr (bufsize * math_ceil q))"

subsection \<open>The class \<^verbatim>\<open>LimitTar\<close>\<close>

text \<open>
  A \<^verbatim>\<open>str\<close> is a list of code points. The field \<open>encoding\<close> is the codec named by
  \<^verbatim>\<open>self._encoding\<close>: it returns \<open>None\<close> where \<^verbatim>\<open>path.encode(self._encoding)\<close> raises.
  \<open>path_queue\<close> holds the paths put on \<^verbatim>\<open>self._path_queue\<close> and not yet taken by the
  worker thread, oldest first. The property \<^verbatim>\<open>size\<close> is \<open>size_property\<close>.
\<close>

type_synonym pystr = "nat list"

record limit_tar =
  size_limit :: "int option"
  bufsize :: int
  encoding :: "pystr \<Rightarrow> bytes option"
  path_queue :: "pystr list"
  data_size :: int

definition init :: "int option \<Rightarrow> int \<Rightarrow> (pystr \<Rightarrow> bytes option) \<Rightarrow> limit_tar" where
  "init limit bsize codec =
     \<lparr>size_limit = limit, bufsize = bsize, encoding = codec, path_queue = [], data_size = 0\<rparr>"

definition size_property :: "limit_tar \<Rightarrow> py_error + int" where
  "size_property self = determine_tar_archive_size (data_size self) (bufsize self)"

text \<open>\<^verbatim>\<open>self._size_limit and archive_size > self._size_limit\<close>: \<^verbatim>\<open>None\<close> and \<^verbatim>\<open>0\<close> are
  false in a condition.\<close>

definition over_size_limit :: "int option \<Rightarrow> int \<Rightarrow> bool" where
  "over_size_limit limit archive_size =
     (case limit of None \<Rightarrow> False | Some l \<Rightarrow> l \<noteq> 0 \<and> archive_size > l)"

definition add_path :: "filesystem \<Rightarrow> limit_tar \<Rightarrow> pystr \<Rightarrow> py_error option \<times> limit_tar" where
  "add_path fs self path =
     (case encoding self path of
        None \<Rightarrow> (Some UnicodeEncodeError, self)
      | Some encoded \<Rightarrow>
          (case determine_tar_file_size fs encoded of
             Inl e \<Rightarrow> (Some e, self)
           | Inr tar_file_size \<Rightarrow>
               (let predicted_size = data_size self + tar_file_size
                in case determine_tar_archive_size predicted_size (bufsize self) of
                     Inl e \<Rightarrow> (Some e, self)
                   | Inr archive_size \<Rightarrow>
                       if over_size_limit (size_limit self) archive_size
                       then (Some SizeLimitReached, self)
                       else (None, self\<lparr>path_queue := path_queue self @ [path],
                                        data_size := data_size self + tar_file_size\<rparr>))))"

subsection \<open>The generator \<^verbatim>\<open>add_paths\<close>\<close>

text \<open>
  The generator is run to its end; its result is the sequence of what happened, the
  object at the end, and the exception that ended it early, if one did (\<^verbatim>\<open>add_paths\<close>
  catches \<^verbatim>\<open>SizeLimitReached\<close> and \<^verbatim>\<open>OSError\<close> only). What is printed to
  \<^verbatim>\<open>sys.stderr\<close> is left out. An event \<open>Attempt p\<close> records a call
  \<^verbatim>\<open>self.add_path(p)\<close>, an event \<open>Yield p e\<close> the pair given to the consumer; the local
  \<^verbatim>\<open>exception\<close> is unbound (\<open>None\<close>) until first assigned.

  The worker thread takes paths from the queue while the generator runs. Its progress
  is the schedule \<open>taken\<close>: before the loop body runs for the item of index \<open>i\<close>, the
  worker has taken \<open>taken i\<close> further paths (fewer when the queue holds fewer). The
  queue is read only by \<^verbatim>\<open>self._path_queue.empty()\<close>.
\<close>

record halt_flags =
  halt_on_size_limit_reached :: bool
  halt_on_underrun :: bool
  halt_on_os_error :: bool

datatype event = Attempt pystr | Yield pystr "py_error option"

definition worker_takes :: "nat \<Rightarrow> limit_tar \<Rightarrow> limit_tar" where
  "worker_takes k self = self\<lparr>path_queue := drop k (path_queue self)\<rparr>"

definition emit :: "event list \<Rightarrow> event list \<times> limit_tar \<times> py_error option
    \<Rightarrow> event list \<times> limit_tar \<times> py_error option" where
  "emit evs r = (case r of (evs', self, raised) \<Rightarrow> (evs @ evs', self, raised))"

fun add_paths_loop :: "filesystem \<Rightarrow> halt_flags \<Rightarrow> (nat \<Rightarrow> nat) \<Rightarrow> nat \<Rightarrow> pystr list
    \<Rightarrow> limit_tar \<Rightarrow> bool \<Rightarrow> py_error option \<Rightarrow> event list \<times> limit_tar \<times> py_error option" where
  "add_paths_loop fs flags taken i [] self halt exception = ([], self, None)"
| "add_paths_loop fs flags taken i (path # paths) self halt exception =
     (let self = worker_takes (taken i) self
      in if path = [] then add_paths_loop fs flags taken (i + 1) paths self halt exception
         else if \<not> halt then
           (let underrun = (i > 10 \<and> halt_on_underrun flags \<and> path_queue self = []);
                exception = (if underrun then Some Underrun else exception);
                halt = (if underrun then True else halt)
            in case add_path fs self path of
                 (None, self') \<Rightarrow>
                   emit [Attempt path]
                     (add_paths_loop fs flags taken (i + 1) paths self' halt exception)
               | (Some SizeLimitReached, self') \<Rightarrow>
                   emit [Attempt path, Yield path (Some SizeLimitReached)]
                     (add_paths_loop fs flags taken (i + 1) paths self'
                        (if halt_on_size_limit_reached flags then True else halt)
                        (Some SizeLimitReached))
               | (Some OSError, self') \<Rightarrow>
                   emit [Attempt path, Yield path (Some OSError)]
                     (add_paths_loop fs flags taken (i + 1) paths self'
                        (if halt_on_os_error flags then True else halt)
                        (Some OSError))
               | (Some e, self') \<Rightarrow> ([Attempt path], self', Some e))
         else emit [Yield path exception]
                (add_paths_loop fs flags taken (i + 1) paths self halt exception))"

definition add_paths :: "filesystem \<Rightarrow> halt_flags \<Rightarrow> (nat \<Rightarrow> nat) \<Rightarrow> limit_tar \<Rightarrow> pystr list
    \<Rightarrow> event list \<times> limit_tar \<times> py_error option" where
  "add_paths fs flags taken self paths = add_paths_loop fs flags taken 0 paths self False None"

text \<open>What the consumer of the generator receives, and the calls of \<^verbatim>\<open>add_path\<close> made.\<close>

fun yielded :: "event list \<Rightarrow> (pystr \<times> py_error option) list" where
  "yielded [] = []"
| "yielded (Yield p e # evs) = (p, e) # yielded evs"
| "yielded (Attempt p # evs) = yielded evs"

fun attempted :: "event list \<Rightarrow> pystr list" where
  "attempted [] = []"
| "attempted (Attempt p # evs) = p # attempted evs"
| "attempted (Yield p e # evs) = attempted evs"

subsection \<open>Calling \<^verbatim>\<open>add_path\<close> for one path after another\<close>

text \<open>
  A caller that admits the paths of a list in turn, as in
  \<^verbatim>\<open>for p in paths: ltar.add_path(p)\<close>: the first exception ends the run.
  \<open>tar_file_size_of\<close> is the size \<^verbatim>\<open>add_path\<close> computes for a path, the value of
  \<^verbatim>\<open>determine_tar_file_size(path.encode(self._encoding))\<close>.
\<close>

fun add_path_sequence :: "filesystem \<Rightarrow> limit_tar \<Rightarrow> pystr list \<Rightarrow> py_error option \<times> limit_tar" where
  "add_path_sequence fs self [] = (None, self)"
| "add_path_sequence fs self (path # paths) =
     (case add_path fs self path of
        (None, self') \<Rightarrow> add_path_sequence fs self' paths
      | (Some e, self') \<Rightarrow> (Some e, self'))"

definition tar_file_size_of :: "filesystem \<Rightarrow> (pystr \<Rightarrow> bytes option) \<Rightarrow> pystr \<Rightarrow> py_error + int" where
  "tar_file_size_of fs codec path =
     (case codec path of
        None \<Rightarrow> Inl UnicodeEncodeError
      | Some encoded \<Rightarrow> determine_tar_file_size fs encoded)"

subsection \<open>Limits of the interpreter, and data for the examples\<close>

text \<open>\<^verbatim>\<open>sys.maxsize\<close>: no \<^verbatim>\<open>bytes\<close> object is longer.\<close>

definition sys_maxsize :: nat where
  "sys_maxsize = 2 ^ 63 - 1"

text \<open>
  The codec \<^verbatim>\<open>"ascii"\<close>, a \<^verbatim>\<open>str\<close> literal, the keyword defaults of \<^verbatim>\<open>add_paths\<close>, and a
  file system with a few entries: regular files of 0, 1 and 1024 bytes, a directory, a
  symbolic link to the file of 1024 bytes, and an empty regular file under every name
  of 100 or of 200 bytes and under every name of two bytes that starts with \<open>p\<close> (names
  without NUL byte).
\<close>

definition ascii :: "pystr \<Rightarrow> bytes option" where
  "ascii s = (if list_all (\<lambda>c. c < 128) s then Some (map char_of s) else None)"

definition str :: "string \<Rightarrow> pystr" where
  "str s = map of_char s"

definition no_halt :: halt_flags where
  "no_halt = \<lparr>halt_on_size_limit_reached = False, halt_on_underrun = False,
     halt_on_os_error = False\<rparr>"

text \<open>Two schedules of the worker thread: it takes nothing (it is not running), or it
  takes one path before every run of the loop body.\<close>

definition worker_idle :: "nat \<Rightarrow> nat" where
  "worker_idle i = 0"

definition worker_keeps_up :: "nat \<Rightarrow> nat" where
  "worker_keeps_up i = 1"

definition example_fs :: filesystem where
  "example_fs path =
     (if CHR 0x00 \<in> set path then None
      else if length path = 100 \<or> length path = 200 then Some (RegularFile 0)
      else if length path = 2 \<and> hd path = CHR ''p'' then Some (RegularFile 0)
      else if path = ''empty'' then Some (RegularFile 0)
      else if path = ''one'' then Some (RegularFile 1)
      else if path = ''kib'' then Some (RegularFile 1024)
      else if path = ''dir'' then Some (Directory 4096)
      else if path = ''link'' then Some (Symlink ''kib'')
      else None)"

section \<open>Rounding to binary64\<close>

lemma round_half_even_of_int: "round_half_even (of_int n) = n"
  by (simp add: round_half_even_def)

lemma round_half_even_cases:
  "round_half_even x = \<lfloor>x\<rfloor> \<and> x - of_int \<lfloor>x\<rfloor> \<le> 1 / 2
   \<or> round_half_even x = \<lfloor>x\<rfloor> + 1 \<and> 1 / 2 \<le> x - of_int \<lfloor>x\<rfloor>"
  by (auto simp: round_half_even_def Let_def)

lemma round_half_even_mono: "x \<le> y \<Longrightarrow> round_half_even x \<le> round_half_even y"
proof -
  assume xy: "x \<le> y"
  have fl: "\<lfloor>x\<rfloor> \<le> \<lfloor>y\<rfloor>" using xy by (rule floor_mono)
  show ?thesis
  proof (cases "\<lfloor>x\<rfloor> = \<lfloor>y\<rfloor>")
    case True
    then show ?thesis using xy by (auto simp: round_half_even_def Let_def)
  next
    case False
    then have "\<lfloor>x\<rfloor> + 1 \<le> \<lfloor>y\<rfloor>" using fl by linarith
    moreover have "round_half_even x \<le> \<lfloor>x\<rfloor> + 1" by (simp add: round_half_even_def Let_def)
    moreover have "\<lfloor>y\<rfloor> \<le> round_half_even y" by (simp add: round_half_even_def Let_def)
    ultimately show ?thesis by linarith
  qed
qed

lemma round_half_even_error: "\<bar>of_int (round_half_even x) - x\<bar> \<le> 1 / 2"
proof -
  have "of_int \<lfloor>x\<rfloor> \<le> x" "x < of_int \<lfloor>x\<rfloor> + 1" by linarith+
  then show ?thesis using round_half_even_cases [of x] by (auto simp: abs_le_iff)
qed

lemma pow2_less_iff: "(2::rat) powi m < 2 powi n \<longleftrightarrow> m < n"
proof
  assume l: "(2::rat) powi m < 2 powi n"
  show "m < n"
  proof (rule ccontr)
    assume "\<not> m < n"
    then have "n \<le> m" by simp
    then have "(2::rat) powi n \<le> 2 powi m" by (rule power_int_increasing) simp
    with l show False by simp
  qed
next
  assume "m < n"
  then show "(2::rat) powi m < 2 powi n" by (rule power_int_strict_increasing) simp
qed

lemma pow2_le_iff: "(2::rat) powi m \<le> 2 powi n \<longleftrightarrow> m \<le> n"
  using pow2_less_iff [of n m] by (auto simp: not_less [symmetric])

lemma floor_log2_ge1:
  assumes "1 \<le> x"
  shows "2 powi floor_log2 x \<le> x" and "x < 2 powi (floor_log2 x + 1)"
proof -
  from assms have p: "0 < \<lfloor>x\<rfloor>" by linarith
  have k: "1 \<le> bitlen \<lfloor>x\<rfloor>" using p by (simp add: bitlen_alt_def)
  from bitlen_bounds [OF p]
  have lo: "2 ^ nat (bitlen \<lfloor>x\<rfloor> - 1) \<le> \<lfloor>x\<rfloor>" and hi: "\<lfloor>x\<rfloor> < 2 ^ nat (bitlen \<lfloor>x\<rfloor>)"
    by simp_all
  from lo have "(of_int (2 ^ nat (bitlen \<lfloor>x\<rfloor> - 1)) :: rat) \<le> of_int \<lfloor>x\<rfloor>"
    by (simp only: of_int_le_iff)
  also have "\<dots> \<le> x" by simp
  finally have "(2::rat) ^ nat (bitlen \<lfloor>x\<rfloor> - 1) \<le> x" by simp
  then show "2 powi floor_log2 x \<le> x"
    using assms k by (simp add: floor_log2_def power_int_nonneg_exp)
  from hi have "\<lfloor>x\<rfloor> + 1 \<le> 2 ^ nat (bitlen \<lfloor>x\<rfloor>)" by simp
  then have "(of_int (\<lfloor>x\<rfloor> + 1) :: rat) \<le> of_int (2 ^ nat (bitlen \<lfloor>x\<rfloor>))"
    by (simp only: of_int_le_iff)
  moreover have "x < of_int (\<lfloor>x\<rfloor> + 1)" by linarith
  ultimately have "x < (2::rat) ^ nat (bitlen \<lfloor>x\<rfloor>)" by simp
  then show "x < 2 powi (floor_log2 x + 1)"
    using assms k by (simp add: floor_log2_def power_int_nonneg_exp)
qed

lemma floor_log2_lt1:
  assumes "0 < x" "x < 1"
  shows "2 powi floor_log2 x \<le> x" and "x < 2 powi (floor_log2 x + 1)"
proof -
  define c where "c = \<lceil>1 / x\<rceil>"
  define k where "k = bitlen (c - 1)"
  have y: "1 < 1 / x" using assms by simp
  then have c2: "2 \<le> c" unfolding c_def by linarith
  then have p: "0 < c - 1" by simp
  have k1: "1 \<le> k" using p by (simp add: k_def bitlen_alt_def)
  from bitlen_bounds [OF p]
  have lo: "2 ^ nat (k - 1) \<le> c - 1" and hi: "c - 1 < 2 ^ nat k"
    by (simp_all add: k_def)
  have fl: "floor_log2 x = - k" using assms by (simp add: floor_log2_def k_def c_def)
  from hi have "c \<le> 2 ^ nat k" by simp
  then have "(of_int c :: rat) \<le> 2 ^ nat k" by simp
  moreover have "1 / x \<le> of_int c" unfolding c_def by simp
  ultimately have "1 / x \<le> (2::rat) ^ nat k" by linarith
  then have "1 \<le> 2 ^ nat k * x" using assms by (simp add: field_simps)
  then have "1 / 2 ^ nat k \<le> x" by (simp add: field_simps)
  then show "2 powi floor_log2 x \<le> x"
    using k1 by (simp add: fl power_int_minus_divide power_int_nonneg_exp)
  from lo have "(2 :: rat) ^ nat (k - 1) \<le> of_int (c - 1)"
    by (metis of_int_le_iff of_int_numeral of_int_power)
  moreover have "of_int (c - 1) < 1 / x" unfolding c_def by linarith
  ultimately have "(2::rat) ^ nat (k - 1) < 1 / x" by linarith
  then have "2 ^ nat (k - 1) * x < 1" using assms by (simp add: field_simps)
  then have "x < 1 / 2 ^ nat (k - 1)" by (simp add: field_simps)
  moreover have "(2::rat) powi (- k + 1) = 1 / 2 ^ nat (k - 1)"
    using k1 power_int_minus_divide [of "2::rat" "k - 1"] by (simp add: power_int_nonneg_exp)
  ultimately show "x < 2 powi (floor_log2 x + 1)" by (simp add: fl)
qed

lemma floor_log2_bounds:
  assumes "0 < x"
  shows "2 powi floor_log2 x \<le> x" and "x < 2 powi (floor_log2 x + 1)"
  using assms floor_log2_ge1 [of x] floor_log2_lt1 [of x] by (cases "1 \<le> x"; simp)+

lemma floor_log2_unique:
  assumes "2 powi k \<le> x" "x < 2 powi (k + 1)"
  shows "floor_log2 x = k"
proof -
  have pos: "0 < x" using assms(1) zero_less_power_int [of "2::rat" k] by linarith
  have "(2::rat) powi k < 2 powi (floor_log2 x + 1)"
    using assms(1) floor_log2_bounds(2) [OF pos] by linarith
  then have "k < floor_log2 x + 1" by (simp add: pow2_less_iff)
  moreover have "(2::rat) powi floor_log2 x < 2 powi (k + 1)"
    using assms(2) floor_log2_bounds(1) [OF pos] by linarith
  then have "floor_log2 x < k + 1" by (simp add: pow2_less_iff)
  ultimately show ?thesis by linarith
qed

lemma floor_log2_mono:
  assumes "0 < x" "x \<le> y"
  shows "floor_log2 x \<le> floor_log2 y"
proof -
  have "(2::rat) powi floor_log2 x < 2 powi (floor_log2 y + 1)"
    using floor_log2_bounds(1) [OF assms(1)] floor_log2_bounds(2) [of y] assms by linarith
  then have "floor_log2 x < floor_log2 y + 1" by (simp add: pow2_less_iff)
  then show ?thesis by simp
qed


lemma round_binary64_pos:
  "0 < x \<Longrightarrow> round_binary64 x
     = of_int (round_half_even (x / 2 powi ulp_exponent x)) * 2 powi ulp_exponent x"
  by (simp add: round_binary64_def Let_def)

lemma round_binary64_minus: "round_binary64 (- x) = - round_binary64 x"
  by (simp add: round_binary64_def Let_def sgn_minus)

lemma round_half_even_nonneg: "0 \<le> x \<Longrightarrow> 0 \<le> round_half_even x"
  using round_half_even_mono [of 0 x] round_half_even_of_int [of 0] by simp

lemma round_binary64_nonneg: "0 \<le> x \<Longrightarrow> 0 \<le> round_binary64 x"
  by (cases "x = 0") (simp_all add: round_binary64_def Let_def sgn_if round_half_even_nonneg)

lemma ulp_exponent_mono: "0 < x \<Longrightarrow> x \<le> y \<Longrightarrow> ulp_exponent x \<le> ulp_exponent y"
  using floor_log2_mono [of x y] by (simp add: ulp_exponent_def)

lemma round_binary64_exact:
  assumes "0 < x" and "x = of_int m * 2 powi k" and "ulp_exponent x \<le> k"
  shows "round_binary64 x = x"
proof -
  define e where "e = ulp_exponent x"
  have "x / 2 powi e = of_int m * 2 powi (k - e)"
    by (simp add: assms(2) power_int_diff)
  also have "(2::rat) powi (k - e) = of_int (2 ^ nat (k - e))"
    using assms(3) by (simp add: e_def power_int_nonneg_exp)
  finally have "x / 2 powi e = of_int (m * 2 ^ nat (k - e))" by simp
  then have "of_int (round_half_even (x / 2 powi e)) = x / 2 powi e"
    by (simp only: round_half_even_of_int)
  then show ?thesis using assms(1) by (simp add: round_binary64_pos e_def)
qed

lemma floor_log2_pow2: "floor_log2 (2 powi k) = k"
  by (rule floor_log2_unique) (simp_all add: pow2_less_iff)

lemma round_binary64_pow2:
  assumes "- 1074 \<le> k"
  shows "round_binary64 (2 powi k) = 2 powi k"
proof (rule round_binary64_exact [where m = 1 and k = k])
  show "ulp_exponent (2 powi k) \<le> k" using assms by (simp add: ulp_exponent_def floor_log2_pow2)
qed simp_all

lemma round_binary64_mono_pos:
  assumes "0 < x" "x \<le> y"
  shows "round_binary64 x \<le> round_binary64 y"
proof -
  define ex where "ex = ulp_exponent x"
  define ey where "ey = ulp_exponent y"
  have y: "0 < y" using assms by simp
  have le: "ex \<le> ey" unfolding ex_def ey_def using assms by (rule ulp_exponent_mono)
  have rx: "round_binary64 x = of_int (round_half_even (x / 2 powi ex)) * 2 powi ex"
    using assms(1) by (simp add: round_binary64_pos ex_def)
  have ry: "round_binary64 y = of_int (round_half_even (y / 2 powi ey)) * 2 powi ey"
    using y by (simp add: round_binary64_pos ey_def)
  show ?thesis
  proof (cases "ex = ey")
    case True
    have "x / 2 powi ey \<le> y / 2 powi ey" using assms(2) by (simp add: divide_right_mono)
    then have "round_half_even (x / 2 powi ey) \<le> round_half_even (y / 2 powi ey)"
      by (rule round_half_even_mono)
    then show ?thesis by (simp add: rx ry True)
  next
    case False
    with le have lt: "ex < ey" by simp
    define l where "l = floor_log2 y"
    have ey_l: "ey = l - 52" using lt unfolding ey_def ex_def ulp_exponent_def l_def by linarith
    have "floor_log2 x - 52 \<le> ex" by (simp add: ex_def ulp_exponent_def)
    with lt ey_l have lx: "floor_log2 x + 1 \<le> l" by simp
    have x_le: "x \<le> 2 powi l"
    proof -
      have "x < 2 powi (floor_log2 x + 1)" using assms(1) by (rule floor_log2_bounds)
      also have "\<dots> \<le> 2 powi l" using lx by (simp add: pow2_le_iff)
      finally show ?thesis by simp
    qed
    have y_ge: "2 powi l \<le> y" unfolding l_def using y by (rule floor_log2_bounds)
    have ex_l: "ex \<le> l" using lt ey_l by simp
    have "x / 2 powi ex \<le> 2 powi l / 2 powi ex" using x_le by (simp add: divide_right_mono)
    also have "\<dots> = of_int (2 ^ nat (l - ex))"
      using ex_l by (simp add: power_int_diff [symmetric] power_int_nonneg_exp)
    finally have "round_half_even (x / 2 powi ex) \<le> 2 ^ nat (l - ex)"
      using round_half_even_mono round_half_even_of_int by metis
    then have "(of_int (round_half_even (x / 2 powi ex)) :: rat) \<le> of_int (2 ^ nat (l - ex))"
      by (simp only: of_int_le_iff)
    also have "\<dots> = 2 powi l / 2 powi ex"
      using ex_l by (simp add: power_int_diff [symmetric] power_int_nonneg_exp)
    finally have fx: "round_binary64 x \<le> 2 powi l" by (simp add: rx field_simps)
    have "2 powi l / 2 powi ey \<le> y / 2 powi ey" using y_ge by (simp add: divide_right_mono)
    moreover have p52: "2 powi l / 2 powi ey = (of_int (2 ^ 52) :: rat)"
      by (simp add: ey_l power_int_diff [symmetric])
    ultimately have "2 ^ 52 \<le> round_half_even (y / 2 powi ey)"
      using round_half_even_mono round_half_even_of_int by metis
    then have "(of_int (2 ^ 52) :: rat) \<le> of_int (round_half_even (y / 2 powi ey))"
      by (simp only: of_int_le_iff)
    then have "2 powi l \<le> round_binary64 y"
      using p52 by (simp add: ry field_simps)
    with fx show ?thesis by simp
  qed
qed


lemma round_binary64_zero: "round_binary64 0 = 0"
  by (simp add: round_binary64_def)

lemma round_binary64_mono:
  assumes "x \<le> y"
  shows "round_binary64 x \<le> round_binary64 y"
proof -
  consider "0 < x" | "x \<le> 0" "0 \<le> y" | "y < 0" by linarith
  then show ?thesis
  proof cases
    case 1
    then show ?thesis using assms by (rule round_binary64_mono_pos)
  next
    case 2
    have "0 \<le> round_binary64 (- x)" using 2 by (simp add: round_binary64_nonneg)
    then have "round_binary64 x \<le> 0" by (simp add: round_binary64_minus)
    moreover have "0 \<le> round_binary64 y" using 2 by (simp add: round_binary64_nonneg)
    ultimately show ?thesis by simp
  next
    case 3
    then have "round_binary64 (- y) \<le> round_binary64 (- x)"
      using assms by (intro round_binary64_mono_pos) simp_all
    then show ?thesis by (simp add: round_binary64_minus)
  qed
qed

lemma round_binary64_of_int:
  assumes "0 \<le> n" "n \<le> 2 ^ 53"
  shows "round_binary64 (of_int n) = of_int n"
proof (cases "n = 0")
  case True
  then show ?thesis by (simp add: round_binary64_zero)
next
  case False
  with assms have pos: "0 < (of_int n :: rat)" by simp
  show ?thesis
  proof (cases "n = 2 ^ 53")
    case True
    have "round_binary64 (2 powi 53) = 2 powi 53" by (rule round_binary64_pow2) simp
    then show ?thesis by (simp add: True)
  next
    case False
    with assms have "(of_int n :: rat) < 2 powi (52 + 1)" by simp
    moreover have "(2::rat) powi floor_log2 (of_int n) \<le> of_int n"
      using pos by (rule floor_log2_bounds)
    ultimately have "(2::rat) powi floor_log2 (of_int n) < 2 powi (52 + 1)" by linarith
    then have "floor_log2 (of_int n) < 52 + 1" by (simp only: pow2_less_iff)
    then have "floor_log2 (of_int n) \<le> 52" by simp
    then have "ulp_exponent (of_int n) \<le> 0" by (simp add: ulp_exponent_def)
    with pos show ?thesis by (intro round_binary64_exact [where m = n and k = 0]) simp_all
  qed
qed

lemma round_binary64_error:
  assumes "0 < x" "- 1022 \<le> floor_log2 x"
  shows "\<bar>round_binary64 x - x\<bar> \<le> x / 2 ^ 53"
proof -
  define l where "l = floor_log2 x"
  have e: "ulp_exponent x = l - 52" using assms(2) by (simp add: ulp_exponent_def l_def)
  define y where "y = x / 2 powi (l - 52)"
  have x: "x = y * 2 powi (l - 52)" by (simp add: y_def)
  have "round_binary64 x - x = (of_int (round_half_even y) - y) * 2 powi (l - 52)"
    using assms(1) by (simp add: round_binary64_pos e y_def algebra_simps)
  then have "\<bar>round_binary64 x - x\<bar> = \<bar>of_int (round_half_even y) - y\<bar> * 2 powi (l - 52)"
    by (simp add: abs_mult)
  also have "\<dots> \<le> 1 / 2 * 2 powi (l - 52)"
    by (intro mult_right_mono round_half_even_error) simp
  also have "\<dots> = 2 powi l / 2 ^ 53"
    by (simp add: power_int_diff)
  also have "\<dots> \<le> x / 2 ^ 53"
    using floor_log2_bounds(1) [OF assms(1)] by (simp add: l_def divide_right_mono)
  finally show ?thesis .
qed

lemma round_half_even_ge1: "1 / 2 < x \<Longrightarrow> 1 \<le> round_half_even x"
proof -
  assume h: "1 / 2 < x"
  then have f: "0 \<le> \<lfloor>x\<rfloor>" by simp
  show ?thesis
  proof (cases "\<lfloor>x\<rfloor> = 0")
    case True
    then show ?thesis using h by (simp add: round_half_even_def Let_def)
  next
    case False
    with f have "1 \<le> \<lfloor>x\<rfloor>" by linarith
    moreover have "\<lfloor>x\<rfloor> \<le> round_half_even x" by (simp add: round_half_even_def Let_def)
    ultimately show ?thesis by linarith
  qed
qed

lemma round_binary64_positive:
  assumes "2 powi (- 1075) < x"
  shows "0 < round_binary64 x"
proof -
  have pos: "0 < x" using assms zero_less_power_int [of "2::rat" "- 1075"] by linarith
  define e where "e = ulp_exponent x"
  have "1 / 2 < x / 2 powi e"
  proof (cases "e = - 1074")
    case True
    have "(2::rat) powi (- 1075) = 1 / 2 * 2 powi (- 1074)"
      by (simp add: power_int_diff [of 2 "- 1074" 1, simplified])
    with assms show ?thesis by (simp add: True field_simps)
  next
    case False
    then have el: "e = floor_log2 x - 52" unfolding e_def ulp_exponent_def by linarith
    have "2 powi floor_log2 x \<le> x" using pos by (rule floor_log2_bounds)
    then have "2 powi floor_log2 x / 2 powi e \<le> x / 2 powi e" by (simp add: divide_right_mono)
    moreover have "2 powi floor_log2 x / 2 powi e = (2 ^ 52 :: rat)"
      by (simp add: el power_int_diff [symmetric])
    moreover have "(1 / 2 :: rat) < 2 ^ 52" by simp
    ultimately show ?thesis by (simp only:)
  qed
  then have "1 \<le> round_half_even (x / 2 powi e)" by (rule round_half_even_ge1)
  then have "(1 :: rat) \<le> of_int (round_half_even (x / 2 powi e))" by simp
  then have "0 < (of_int (round_half_even (x / 2 powi e)) :: rat) * 2 powi e"
    by (intro mult_pos_pos) simp_all
  then show ?thesis using pos by (simp add: round_binary64_pos e_def)
qed


lemma round_binary64_quotient_le:
  assumes "0 \<le> a" "a \<le> 2 ^ 53" "0 < b"
  shows "0 \<le> round_binary64 (of_int a / of_int b)"
    and "round_binary64 (of_int a / of_int b) \<le> of_int a"
proof -
  have b1: "(1::rat) \<le> of_int b" using assms(3) by simp
  have a0: "(0::rat) \<le> of_int a" using assms(1) by simp
  show "0 \<le> round_binary64 (of_int a / of_int b)"
    using a0 b1 by (intro round_binary64_nonneg) simp
  have "(of_int a :: rat) / of_int b \<le> of_int a / 1"
    using a0 b1 by (intro divide_left_mono) simp_all
  then have "round_binary64 (of_int a / of_int b) \<le> round_binary64 (of_int a)"
    by (intro round_binary64_mono) simp
  then show "round_binary64 (of_int a / of_int b) \<le> of_int a"
    using assms by (simp add: round_binary64_of_int)
qed

lemma ceiling_round_binary64_quotient:
  assumes a: "0 < a" "a < 2 ^ 53" and b: "0 < b"
    and tiny: "2 powi (- 1075) < (of_int a / of_int b :: rat)"
  shows "\<lceil>round_binary64 (of_int a / of_int b)\<rceil> = \<lceil>(of_int a / of_int b :: rat)\<rceil>"
proof -
  define x :: rat where "x = of_int a / of_int b"
  have B: "(0::rat) < of_int b" using b by simp
  have xpos: "0 < x" using a B by (simp add: x_def)
  show ?thesis
  proof (cases "x \<le> 1")
    case True
    have "round_binary64 x \<le> round_binary64 1" using True by (rule round_binary64_mono)
    moreover have "round_binary64 1 = 1" using round_binary64_of_int [of 1] by simp
    moreover have "0 < round_binary64 x" using tiny unfolding x_def by (rule round_binary64_positive)
    ultimately have "\<lceil>round_binary64 x\<rceil> = 1" by (intro ceiling_unique) simp_all
    moreover have "\<lceil>x\<rceil> = 1" using True xpos by (intro ceiling_unique) simp_all
    ultimately show ?thesis by (simp add: x_def)
  next
    case False
    then have x1: "1 \<le> x" by simp
    have "floor_log2 1 \<le> floor_log2 x" using x1 by (intro floor_log2_mono) simp_all
    moreover have "floor_log2 1 = 0" using floor_log2_pow2 [of 0] by simp
    ultimately have "- 1022 \<le> floor_log2 x" by simp
    with xpos have "\<bar>round_binary64 x - x\<bar> \<le> x / 2 ^ 53" by (rule round_binary64_error)
    moreover have "x / 2 ^ 53 < 1 / of_int b"
    proof -
      have "(of_int a :: rat) < 2 ^ 53" using a(2) by simp
      then have "(of_int a :: rat) / (of_int b * 2 ^ 53) < 2 ^ 53 / (of_int b * 2 ^ 53)"
        using B by (intro divide_strict_right_mono) simp_all
      then show ?thesis by (simp add: x_def)
    qed
    ultimately have err: "\<bar>round_binary64 x - x\<bar> < 1 / of_int b" by linarith
    define q where "q = a div b"
    define r where "r = a mod b"
    have ab: "a = b * q + r" by (simp add: q_def r_def)
    have r: "0 \<le> r" "r < b" using b by (simp_all add: r_def)
    have xq: "x = of_int q + of_int r / of_int b"
      using B by (simp add: x_def ab field_simps)
    show ?thesis
    proof (cases "r = 0")
      case True
      then have xi: "x = of_int q" by (simp add: xq)
      have q0: "0 \<le> q" using a b by (simp add: q_def pos_imp_zdiv_nonneg_iff)
      have "q * 1 \<le> q * b" using q0 b by (intro mult_left_mono) simp_all
      then have "q \<le> a" using ab r(1) by (simp add: mult.commute)
      with q0 have "round_binary64 (of_int q) = of_int q"
        using a(2) by (intro round_binary64_of_int) simp_all
      then show ?thesis using xi by (simp add: x_def)
    next
      case False
      with r have r1: "1 \<le> r" "r \<le> b - 1" by simp_all
      have "(1 :: rat) / of_int b \<le> of_int r / of_int b"
        using r1(1) B by (intro divide_right_mono) simp_all
      then have lo: "of_int q + 1 / of_int b \<le> x" by (simp add: xq)
      have "(of_int r :: rat) \<le> of_int b - 1" using r1(2) by (metis of_int_1 of_int_diff of_int_le_iff)
      then have "(of_int r :: rat) / of_int b \<le> (of_int b - 1) / of_int b"
        using B by (intro divide_right_mono) simp_all
      also have "\<dots> = 1 - 1 / of_int b" using B by (simp add: field_simps)
      finally have hi: "x \<le> of_int q + 1 - 1 / of_int b" by (simp add: xq)
      have "of_int q < round_binary64 x" "round_binary64 x < of_int q + 1"
        using err lo hi by linarith+
      then have "\<lceil>round_binary64 x\<rceil> = q + 1" by (intro ceiling_unique) simp_all
      moreover have "(0::rat) < 1 / of_int b" using B by simp
      then have "of_int q < x" "x \<le> of_int q + 1"
        using lo hi by linarith+
      then have "\<lceil>x\<rceil> = q + 1" by (intro ceiling_unique) simp_all
      ultimately show ?thesis by (simp add: x_def)
    qed
  qed
qed


lemma round_binary64_underflow:
  assumes "0 < x" "x \<le> 2 powi (- 1075)"
  shows "round_binary64 x = 0"
proof -
  have "(2::rat) powi floor_log2 x < 2 powi (- 1074)"
  proof -
    have "2 powi floor_log2 x \<le> x" using assms(1) by (rule floor_log2_bounds)
    also have "\<dots> \<le> 2 powi (- 1075)" by (rule assms(2))
    also have "\<dots> < 2 powi (- 1074)" by (simp only: pow2_less_iff)
    finally show ?thesis .
  qed
  then have "floor_log2 x < - 1074" by (simp only: pow2_less_iff)
  then have e: "ulp_exponent x = - 1074" by (simp add: ulp_exponent_def)
  define y where "y = x / 2 powi (- 1074)"
  have "(2::rat) powi (- 1075) = 1 / 2 * 2 powi (- 1074)"
    by (simp add: power_int_diff [of 2 "- 1074" 1, simplified])
  with assms have y: "0 < y" "y \<le> 1 / 2" by (simp_all add: y_def field_simps)
  then have "\<lfloor>y\<rfloor> = 0" by (intro floor_unique) simp_all
  with y have "round_half_even y = 0" by (simp add: round_half_even_def Let_def)
  then show ?thesis using assms(1) by (simp add: round_binary64_pos e y_def)
qed

lemma py_truediv_ceiling:
  assumes "0 < a" "a < 2 ^ 53" "0 < b" "2 powi (- 1075) < (of_int a / of_int b :: rat)"
  shows "py_truediv a b = Inr (round_binary64 (of_int a / of_int b))"
    and "math_ceil (round_binary64 (of_int a / of_int b)) = \<lceil>(of_int a / of_int b :: rat)\<rceil>"
proof -
  have "0 \<le> round_binary64 (of_int a / of_int b)"
    and "round_binary64 (of_int a / of_int b) \<le> of_int a"
    using assms by (simp_all add: round_binary64_quotient_le)
  moreover have "(of_int a :: rat) < 2 ^ 1024"
  proof -
    have "(of_int a :: rat) < 2 ^ 53" using assms(2) by simp
    also have "\<dots> < 2 ^ 1024" by simp
    finally show ?thesis .
  qed
  ultimately have "\<bar>round_binary64 (of_int a / of_int b)\<bar> < 2 ^ 1024" by linarith
  then show "py_truediv a b = Inr (round_binary64 (of_int a / of_int b))"
    using assms(3) by (simp add: py_truediv_def Let_def)
  show "math_ceil (round_binary64 (of_int a / of_int b)) = \<lceil>(of_int a / of_int b :: rat)\<rceil>"
    unfolding math_ceil_def using assms by (rule ceiling_round_binary64_quotient)
qed

lemma py_truediv_zero: "b \<noteq> 0 \<Longrightarrow> py_truediv 0 b = Inr 0"
  by (simp add: py_truediv_def round_binary64_zero)

lemma py_truediv_mono:
  assumes "0 < b" "a1 \<le> a2" "py_truediv a1 b = Inr q1" "py_truediv a2 b = Inr q2"
  shows "q1 \<le> q2"
proof -
  have "(of_int a1 :: rat) / of_int b \<le> of_int a2 / of_int b"
    using assms(1,2) by (simp add: divide_right_mono)
  then have "round_binary64 (of_int a1 / of_int b) \<le> round_binary64 (of_int a2 / of_int b)"
    by (rule round_binary64_mono)
  moreover have "q1 = round_binary64 (of_int a1 / of_int b)"
    using assms(1,3) by (simp add: py_truediv_def Let_def split: if_splits)
  moreover have "q2 = round_binary64 (of_int a2 / of_int b)"
    using assms(1,4) by (simp add: py_truediv_def Let_def split: if_splits)
  ultimately show ?thesis by simp
qed

lemma py_truediv_512:
  assumes "0 \<le> n" "n < 2 ^ 53"
  shows "py_truediv n 512 = Inr (of_int n / 512)"
proof (cases "n = 0")
  case True
  then show ?thesis by (simp add: py_truediv_zero)
next
  case False
  define x :: rat where "x = of_int n / 512"
  have pos: "0 < x" using assms False by (simp add: x_def)
  have x: "x = of_int n * 2 powi (- 9)" by (simp add: x_def power_int_minus_divide)
  have "x < 2 powi (43 + 1)"
  proof -
    have "(of_int n :: rat) < 2 ^ 53" using assms(2) by simp
    then have "(of_int n :: rat) / 512 < 2 ^ 53 / 512" by (intro divide_strict_right_mono) simp_all
    then show ?thesis by (simp add: x_def)
  qed
  moreover have "2 powi floor_log2 x \<le> x" using pos by (rule floor_log2_bounds)
  ultimately have "(2::rat) powi floor_log2 x < 2 powi (43 + 1)" by linarith
  then have "floor_log2 x < 43 + 1" by (simp only: pow2_less_iff)
  then have "ulp_exponent x \<le> - 9" by (simp add: ulp_exponent_def)
  with pos x have r: "round_binary64 x = x" by (intro round_binary64_exact [where m = n and k = "- 9"])
  have "of_int n / of_int 512 = x" by (simp add: x_def)
  moreover have "\<bar>x\<bar> < 2 ^ 1024"
  proof -
    have "x < 2 ^ 44" using \<open>x < 2 powi (43 + 1)\<close> by simp
    also have "\<dots> < (2 ^ 1024 :: rat)" by simp
    finally show ?thesis using pos by simp
  qed
  ultimately show ?thesis unfolding py_truediv_def Let_def
    by (simp only: r) (simp add: x_def)
qed

section \<open>Which exceptions can arise\<close>

lemma os_stat_follow_error:
  "os_stat_follow fs k path = Inl e \<Longrightarrow> e = OSError \<or> e = ValueError"
  by (induction fs k path rule: os_stat_follow.induct)
     (auto simp: stat_error_def split: if_splits option.splits inode.splits)

lemma os_stat_error: "os_stat fs path = Inl e \<Longrightarrow> e = OSError \<or> e = ValueError"
  unfolding os_stat_def by (rule os_stat_follow_error)

lemma py_truediv_error:
  "py_truediv a b = Inl e \<Longrightarrow> e = ZeroDivisionError \<or> e = OverflowError"
  by (auto simp: py_truediv_def Let_def split: if_splits)

lemma determine_tar_file_size_error:
  "determine_tar_file_size fs path = Inl e
    \<Longrightarrow> e = OSError \<or> e = ValueError \<or> e = ZeroDivisionError \<or> e = OverflowError"
  by (auto simp: determine_tar_file_size_def long_name_size_def file_data_size_def
        os_path_getsize_def
      split: sum.splits if_splits dest: py_truediv_error os_stat_error)

lemma determine_tar_archive_size_error:
  "determine_tar_archive_size t b = Inl e \<Longrightarrow> e = ZeroDivisionError \<or> e = OverflowError"
  by (auto simp: determine_tar_archive_size_def split: sum.splits dest: py_truediv_error)

section \<open>The estimators in exact arithmetic\<close>

lemma py_truediv_no_overflow:
  assumes "0 \<le> a" "a \<le> 2 ^ 1023" "0 < b"
  shows "py_truediv a b = Inr (round_binary64 (of_int a / of_int b))"
proof -
  define x :: rat where "x = of_int a / of_int b"
  have b1: "(1::rat) \<le> of_int b" using assms(3) by simp
  have a0: "(0::rat) \<le> of_int a" using assms(1) by simp
  have x0: "0 \<le> x" using a0 b1 by (simp add: x_def)
  have "x \<le> of_int a / 1" unfolding x_def using a0 b1 by (intro divide_left_mono) simp_all
  also have "(of_int a :: rat) \<le> 2 ^ 1023" using assms(2) by (metis of_int_le_iff of_int_numeral of_int_power)
  finally have "x \<le> 2 powi 1023" by simp
  then have "round_binary64 x \<le> round_binary64 (2 powi 1023)" by (rule round_binary64_mono)
  also have "\<dots> = 2 powi 1023" by (rule round_binary64_pow2) simp
  also have "\<dots> < (2 ^ 1024 :: rat)" by simp
  finally have "round_binary64 x < 2 ^ 1024" .
  moreover have "0 \<le> round_binary64 x" using x0 by (rule round_binary64_nonneg)
  ultimately have "\<not> 2 ^ 1024 \<le> \<bar>round_binary64 x\<bar>" by linarith
  then show ?thesis using assms(3) by (simp add: py_truediv_def Let_def x_def)
qed

lemma ceiling_quotient_div:
  "\<lceil>(of_int a / of_int b :: rat)\<rceil> = - (- a div b)"
proof -
  have "\<lfloor>(of_int (- a) / of_int b :: rat)\<rfloor> = - a div b" by (rule floor_divide_of_int_eq)
  then show ?thesis by (simp add: ceiling_def)
qed

lemma os_stat_follow_pos:
  "0 < k \<Longrightarrow> os_stat_follow fs k path =
     (if PATH_MAX \<le> length path then Inl (stat_error path)
      else case fs path of
             None \<Rightarrow> Inl (stat_error path)
           | Some (Symlink target) \<Rightarrow> os_stat_follow fs (k - 1) target
           | Some node \<Rightarrow> Inr node)"
  by (cases k) (auto split: option.splits inode.splits)

lemma ascii_str: "list_all (\<lambda>c. of_char c < (128::nat)) s \<Longrightarrow> ascii (str s) = Some s"
  by (simp add: ascii_def str_def list_all_iff comp_def)

lemma long_name_size_short: "n \<le> 100 \<Longrightarrow> long_name_size n = Inr 0"
  by (simp add: long_name_size_def)

lemma long_name_size_long:
  assumes "100 < n" "n < 2 ^ 53"
  shows "long_name_size n = Inr (512 + 512 * \<lceil>(of_int n / 512 :: rat)\<rceil>)"
  using assms by (simp add: long_name_size_def py_truediv_512 math_ceil_def)

lemma long_name_size_succeeds:
  assumes "n \<le> 2 ^ 1023"
  shows "\<exists>s. long_name_size n = Inr s"
proof (cases "100 < n")
  case True
  then have "py_truediv n 512 = Inr (round_binary64 (of_int n / of_int 512))"
    using assms by (intro py_truediv_no_overflow) simp_all
  then show ?thesis using True by (simp add: long_name_size_def)
next
  case False
  then show ?thesis by (simp add: long_name_size_def)
qed



lemma os_stat_missing: "fs path = None \<Longrightarrow> os_stat fs path = Inl (stat_error path)"
  by (simp add: os_stat_def)

lemma os_stat_follow_not_Symlink: "os_stat_follow fs k path \<noteq> Inr (Symlink target)"
  by (induction fs k path rule: os_stat_follow.induct)
     (auto split: option.splits inode.splits)


lemma file_data_size_error: "os_stat fs path = Inl e \<Longrightarrow> file_data_size fs path = Inl e"
  by (simp add: file_data_size_def os_path_getsize_def)

lemma file_data_size_regular:
  assumes "os_stat fs path = Inr (RegularFile n)" "n < 2 ^ 53"
  shows "file_data_size fs path = Inr (512 * (int n div 512))"
proof -
  have "int n < 2 ^ 53" using assms(2) by (metis of_nat_less_iff of_nat_numeral of_nat_power)
  then have "py_truediv (int n) 512 = Inr (of_int (int n) / 512)" by (intro py_truediv_512) simp_all
  moreover have "\<lfloor>(of_int (int n) / of_int 512 :: rat)\<rfloor> = int n div 512"
    by (rule floor_divide_of_int_eq)
  then have "int_of_float (of_int (int n) / 512) = int n div 512"
    by (simp add: int_of_float_def)
  ultimately show ?thesis using assms(1)
    by (simp add: file_data_size_def os_path_getsize_def os_path_isfile_def math_ceil_int_def)
qed

lemma file_data_size_not_regular:
  assumes "os_stat fs path = Inr node" "\<forall>n. node \<noteq> RegularFile n"
  shows "file_data_size fs path = Inr 0"
  using assms by (cases node) (simp_all add: file_data_size_def os_path_getsize_def os_path_isfile_def)

lemma determine_tar_archive_size_exact:
  assumes "- 1024 < t" "t + 1024 < 2 ^ 53" "0 < b" "of_int b < (of_int (t + 1024) * 2 ^ 1075 :: rat)"
  shows "determine_tar_archive_size t b = Inr (b * \<lceil>(of_int (t + 1024) / of_int b :: rat)\<rceil>)"
proof -
  have B: "(0::rat) < of_int b" using assms(3) by simp
  have "(2::rat) powi (- 1075) = 1 / 2 ^ 1075" by (simp add: power_int_minus_divide)
  also have "\<dots> < of_int (t + 1024) / of_int b"
    using assms(4) B by (simp add: field_simps)
  finally have tiny: "2 powi (- 1075) < (of_int (t + 1024) / of_int b :: rat)" .
  have a: "0 < t + 1024" using assms(1) by simp
  show ?thesis
    using py_truediv_ceiling [OF a assms(2,3) tiny]
    by (simp add: determine_tar_archive_size_def)
qed

lemma determine_tar_archive_size_div:
  assumes "0 \<le> t" "t < 2 ^ 52" "0 < b" "b < 2 ^ 1000"
  shows "determine_tar_archive_size t b = Inr (b * - (- (t + 1024) div b))"
proof -
  have "(of_int b :: rat) < 2 ^ 1000" using assms(4) by (metis of_int_less_iff of_int_numeral of_int_power)
  also have "\<dots> \<le> 1 * 2 ^ 1075" by simp
  also have "\<dots> \<le> of_int (t + 1024) * 2 ^ 1075"
    using assms(1) by (intro mult_right_mono) simp_all
  finally have "of_int b < (of_int (t + 1024) * 2 ^ 1075 :: rat)" .
  moreover have "- 1024 < t" "t + 1024 < 2 ^ 53" using assms(1,2) by simp_all
  ultimately have "determine_tar_archive_size t b
      = Inr (b * \<lceil>(of_int (t + 1024) / of_int b :: rat)\<rceil>)"
    using assms(3) by (intro determine_tar_archive_size_exact)
  then show ?thesis by (simp only: ceiling_quotient_div)
qed


section \<open>Evaluating the examples\<close>

lemma os_stat_example [simp]:
  "os_stat example_fs ''empty'' = Inr (RegularFile 0)"
  "os_stat example_fs ''one'' = Inr (RegularFile 1)"
  "os_stat example_fs ''kib'' = Inr (RegularFile 1024)"
  "os_stat example_fs ''dir'' = Inr (Directory 4096)"
  "os_stat example_fs ''link'' = Inr (RegularFile 1024)"
  "os_stat example_fs (replicate 100 (CHR ''n'')) = Inr (RegularFile 0)"
  "os_stat example_fs (replicate 200 (CHR ''n'')) = Inr (RegularFile 0)"
  "c \<noteq> CHR 0x00 \<Longrightarrow> os_stat example_fs [CHR ''p'', c] = Inr (RegularFile 0)"
  "os_stat example_fs ''gone'' = Inl OSError"
  "os_stat example_fs [CHR ''a'', CHR 0x00, CHR ''b''] = Inl ValueError"
  by (simp_all add: os_stat_def os_stat_follow_pos MAXSYMLINKS_def example_fs_def PATH_MAX_def
        stat_error_def)

lemma determine_tar_file_size_example [simp]:
  "determine_tar_file_size example_fs ''empty'' = Inr 512"
  "determine_tar_file_size example_fs ''one'' = Inr 512"
  "determine_tar_file_size example_fs ''kib'' = Inr 1536"
  "determine_tar_file_size example_fs ''dir'' = Inr 512"
  "determine_tar_file_size example_fs ''link'' = Inr 1536"
  "c \<noteq> CHR 0x00 \<Longrightarrow> determine_tar_file_size example_fs [CHR ''p'', c] = Inr 512"
  "determine_tar_file_size example_fs ''gone'' = Inl OSError"
  "determine_tar_file_size example_fs [CHR ''a'', CHR 0x00, CHR ''b''] = Inl ValueError"
  by (simp_all add: determine_tar_file_size_def long_name_size_short file_data_size_regular
        file_data_size_not_regular file_data_size_error)

lemma determine_tar_file_size_example_long [simp]:
  "determine_tar_file_size example_fs (replicate 100 (CHR ''n'')) = Inr 512"
  "determine_tar_file_size example_fs (replicate 200 (CHR ''n'')) = Inr 1536"
  by (simp_all add: determine_tar_file_size_def long_name_size_short long_name_size_long
        file_data_size_regular ceiling_quotient_div [of 200 512, simplified])


lemma init_simps [simp]:
  "size_limit (init l b c) = l" "bufsize (init l b c) = b" "encoding (init l b c) = c"
  "path_queue (init l b c) = []" "data_size (init l b c) = 0"
  by (simp_all add: init_def)

lemma str_Nil [simp]: "str s = [] \<longleftrightarrow> s = []"
  by (simp add: str_def)

lemmas example_eval =
  add_paths_def add_path_def Let_def ascii_str determine_tar_archive_size_div
  over_size_limit_def init_def worker_takes_def emit_def no_halt_def
  worker_idle_def worker_keeps_up_def

section \<open>The size of one file\<close>

text \<open>
  C1. The claim: for a regular file the estimate adds \<open>512 * ceil(file_size / 512)\<close>
  for the data, and nothing for a directory, a symbolic link or another entry that is
  not a regular file. The source computes \<^verbatim>\<open>512 * int(math.ceil(file_size)/512)\<close>, which
  rounds down: a regular file of one byte under a short name is estimated at 512 bytes
  (the header alone) where the claim gives 1024. A symbolic link to a regular file of
  1024 bytes is estimated at 1536 bytes, since \<^verbatim>\<open>os.path.isfile\<close> follows the link.
\<close>

theorem determine_tar_file_size_rounds_down:
  "determine_tar_file_size example_fs ''one'' = Inr 512
   \<and> determine_tar_file_size example_fs ''link'' = Inr 1536"
  by simp



text \<open>
  C9, as stated, fails for a path that holds a NUL byte. Such a path does not exist, yet
  \<^verbatim>\<open>os.path.getsize\<close> raises \<^verbatim>\<open>ValueError\<close> for it, not \<^verbatim>\<open>OSError\<close>; \<^verbatim>\<open>add_path\<close> raises the
  same \<^verbatim>\<open>ValueError\<close>, and \<^verbatim>\<open>add_paths\<close>, which does not catch it, ends with it before the
  next path instead of yielding the path with an \<^verbatim>\<open>OSError\<close>.
\<close>

theorem nul_path_raises_ValueError_counterexample:
  "example_fs [CHR ''a'', CHR 0x00, CHR ''b''] = None
   \<and> determine_tar_file_size example_fs [CHR ''a'', CHR 0x00, CHR ''b''] = Inl ValueError
   \<and> determine_tar_file_size example_fs [CHR ''a'', CHR 0x00, CHR ''b''] \<noteq> Inl OSError
   \<and> add_path example_fs (init None 10240 ascii) (str [CHR ''a'', CHR 0x00, CHR ''b''])
       = (Some ValueError, init None 10240 ascii)
   \<and> add_paths example_fs no_halt worker_idle (init None 10240 ascii)
         [str [CHR ''a'', CHR 0x00, CHR ''b''], str ''empty'']
       = ([Attempt (str [CHR ''a'', CHR 0x00, CHR ''b''])], init None 10240 ascii,
          Some ValueError)"
  by (simp add: example_eval example_fs_def)

text \<open>
  C9, amended. For a path that holds no NUL byte and does not exist,
  \<^verbatim>\<open>determine_tar_file_size\<close> raises \<^verbatim>\<open>OSError\<close>, whatever the length of the path (within
  \<^verbatim>\<open>sys.maxsize\<close>) and although nothing would be added for an entry that is not a regular
  file; \<^verbatim>\<open>add_path\<close> then raises the same \<^verbatim>\<open>OSError\<close> and leaves the object as it was.
\<close>

theorem missing_path_raises_OSError:
  "fs encoded = None \<and> CHR 0x00 \<notin> set encoded \<and> length encoded \<le> sys_maxsize \<longrightarrow>
     determine_tar_file_size fs encoded = Inl OSError
     \<and> (encoding self path = Some encoded \<longrightarrow> add_path fs self path = (Some OSError, self))"
proof (intro impI)
  assume h: "fs encoded = None \<and> CHR 0x00 \<notin> set encoded \<and> length encoded \<le> sys_maxsize"
  then have "length encoded \<le> 2 ^ 63" by (simp add: sys_maxsize_def)
  then have "int (length encoded) \<le> 2 ^ 63" by (metis of_nat_le_iff of_nat_numeral of_nat_power)
  also have "\<dots> \<le> (2 ^ 1023 :: int)" by simp
  finally obtain s where "long_name_size (int (length encoded)) = Inr s"
    using long_name_size_succeeds by blast
  moreover have "file_data_size fs encoded = Inl OSError"
    using h by (simp add: file_data_size_error os_stat_missing stat_error_def)
  ultimately have "determine_tar_file_size fs encoded = Inl OSError"
    by (simp add: determine_tar_file_size_def)
  then show "determine_tar_file_size fs encoded = Inl OSError
     \<and> (encoding self path = Some encoded \<longrightarrow> add_path fs self path = (Some OSError, self))"
    by (simp add: add_path_def)
qed

theorem missing_path_raises_OSError_witness:
  "example_fs ''gone'' = None \<and> CHR 0x00 \<notin> set ''gone'' \<and> length ''gone'' \<le> sys_maxsize
   \<and> determine_tar_file_size example_fs ''gone'' = Inl OSError
   \<and> encoding (init None 10240 ascii) (str ''gone'') = Some ''gone''
   \<and> add_path example_fs (init None 10240 ascii) (str ''gone'')
       = (Some OSError, init None 10240 ascii)"
proof -
  have h: "example_fs ''gone'' = None \<and> CHR 0x00 \<notin> set ''gone'' \<and> length ''gone'' \<le> sys_maxsize"
    by (simp add: example_fs_def sys_maxsize_def)
  have e: "encoding (init None 10240 ascii) (str ''gone'') = Some ''gone''"
    by (simp add: ascii_str)
  from missing_path_raises_OSError [of example_fs "''gone''" "init None 10240 ascii" "str ''gone''"] h e
  have "determine_tar_file_size example_fs ''gone'' = Inl OSError
     \<and> add_path example_fs (init None 10240 ascii) (str ''gone'')
       = (Some OSError, init None 10240 ascii)" by blast
  with h e show ?thesis by blast
qed

section \<open>The size of the archive\<close>

text \<open>
  The quotient \<open>(2 ^ 53 + 1) / 2\<close> lies halfway between two floats and is rounded to
  the even one, \<open>2 ^ 52\<close>; the quotient \<open>1024 / 2 ^ 1085\<close> is half the smallest
  positive float and is rounded to zero.
\<close>

lemma py_truediv_tie: "py_truediv (2 ^ 53 + 1) 2 = Inr (2 ^ 52)"
proof -
  let ?x = "9007199254740993 / 2 :: rat"
  have "floor_log2 ?x = 52" by (rule floor_log2_unique) simp_all
  then have e: "ulp_exponent ?x = 0" by (simp add: ulp_exponent_def)
  have fl: "\<lfloor>?x\<rfloor> = 2 ^ 52" by (rule floor_unique) simp_all
  have "round_half_even ?x = 2 ^ 52"
    unfolding round_half_even_def Let_def fl by simp
  then have "round_binary64 ?x = 2 ^ 52"
    by (simp add: round_binary64_pos e del: power_int_numeral)
  moreover have "of_int (2 ^ 53 + 1) / of_int 2 = ?x" by simp
  ultimately have "round_binary64 (of_int (2 ^ 53 + 1) / of_int 2) = 2 ^ 52" by (simp only:)
  then show ?thesis unfolding py_truediv_def Let_def by (simp only:) simp
qed

lemma py_truediv_underflow: "py_truediv 1024 (2 ^ 1085) = Inr 0"
proof -
  have "(of_int 1024 / of_int (2 ^ 1085) :: rat) = 2 powi (- 1075)"
    by (simp add: power_int_minus_divide)
  moreover have "round_binary64 (2 powi (- 1075)) = 0"
    by (rule round_binary64_underflow) simp_all
  ultimately have "round_binary64 (of_int 1024 / of_int (2 ^ 1085)) = 0" by (simp only:)
  then show ?thesis unfolding py_truediv_def Let_def by (simp only:) simp
qed

text \<open>
  C2, as stated, fails: for a payload of \<open>2 ^ 53 - 1023\<close> bytes and a block size of 2 the
  function returns \<open>2 ^ 53\<close>, where \<open>block_size * ceil((payload + 2 * 512) / block_size)\<close>
  is \<open>2 ^ 53 + 2\<close>.
\<close>

theorem archive_size_formula_counterexample:
  "determine_tar_archive_size (2 ^ 53 - 1023) 2 = Inr (2 ^ 53)
   \<and> 2 * \<lceil>(of_int (2 ^ 53 - 1023 + 2 * 512) / of_int 2 :: rat)\<rceil> = 2 ^ 53 + 2
   \<and> determine_tar_archive_size (2 ^ 53 - 1023) 2
       \<noteq> Inr (2 * \<lceil>(of_int (2 ^ 53 - 1023 + 2 * 512) / of_int 2 :: rat)\<rceil>)"
proof -
  have f: "determine_tar_archive_size (2 ^ 53 - 1023) 2 = Inr (2 ^ 53)"
    using py_truediv_tie by (simp add: determine_tar_archive_size_def math_ceil_def)
  have "\<lceil>(of_int (2 ^ 53 + 1) / of_int 2 :: rat)\<rceil> = - (- (2 ^ 53 + 1) div 2)"
    by (rule ceiling_quotient_div)
  then have c: "2 * \<lceil>(of_int (2 ^ 53 - 1023 + 2 * 512) / of_int 2 :: rat)\<rceil> = 2 ^ 53 + 2"
    by simp
  show ?thesis unfolding f c by simp
qed

text \<open>
  C2, amended: for a payload with \<open>0 \<le> payload\<close> and \<open>payload + 2 * 512 < 2 ^ 53\<close> and a
  block size with \<open>0 < block_size < 2 ^ 1085\<close>, \<^verbatim>\<open>determine_tar_archive_size\<close> returns
  \<open>block_size * ceil((payload + 2 * 512) / block_size)\<close>; and the property \<^verbatim>\<open>size\<close> is
  this function applied to the predicted data size and the block size of the object.
\<close>

theorem archive_size_formula:
  "(0 \<le> payload \<and> payload + 2 * 512 < 2 ^ 53 \<and> 0 < block_size \<and> block_size < 2 ^ 1085 \<longrightarrow>
      determine_tar_archive_size payload block_size
        = Inr (block_size * \<lceil>(of_int (payload + 2 * 512) / of_int block_size :: rat)\<rceil>))
   \<and> size_property self = determine_tar_archive_size (data_size self) (bufsize self)"
proof (intro conjI impI)
  assume h: "0 \<le> payload \<and> payload + 2 * 512 < 2 ^ 53 \<and> 0 < block_size \<and> block_size < 2 ^ 1085"
  then have "(of_int block_size :: rat) < 2 ^ 1085"
    by (metis of_int_less_iff of_int_numeral of_int_power)
  also have "\<dots> = 1024 * 2 ^ 1075" by simp
  also have "\<dots> \<le> of_int (payload + 1024) * 2 ^ 1075"
    using h by (intro mult_right_mono) simp_all
  finally have "of_int block_size < (of_int (payload + 1024) * 2 ^ 1075 :: rat)" .
  then show "determine_tar_archive_size payload block_size
        = Inr (block_size * \<lceil>(of_int (payload + 2 * 512) / of_int block_size :: rat)\<rceil>)"
    using h determine_tar_archive_size_exact [of payload block_size] by simp
next
  show "size_property self = determine_tar_archive_size (data_size self) (bufsize self)"
    by (simp add: size_property_def)
qed

theorem archive_size_formula_witness:
  "(0::int) \<le> 512 \<and> (512::int) + 2 * 512 < 2 ^ 53 \<and> (0::int) < 10240 \<and> (10240::int) < 2 ^ 1085
   \<and> determine_tar_archive_size 512 10240 = Inr 10240
   \<and> size_property (init (Some 10240) 10240 ascii) = determine_tar_archive_size 0 10240"
proof -
  have "\<lceil>(of_int 1536 / of_int 10240 :: rat)\<rceil> = - (- 1536 div 10240)"
    by (rule ceiling_quotient_div)
  then have c: "\<lceil>(of_int (512 + 2 * 512) / of_int 10240 :: rat)\<rceil> = 1" by simp
  have h: "(0::int) \<le> 512 \<and> (512::int) + 2 * 512 < 2 ^ 53 \<and> (0::int) < 10240 \<and> (10240::int) < 2 ^ 1085"
    by simp
  from archive_size_formula [of 512 10240 "init (Some 10240) 10240 ascii"]
  have 1: "determine_tar_archive_size 512 10240 = Inr (10240 * \<lceil>(of_int (512 + 2 * 512) / of_int 10240 :: rat)\<rceil>)"
    and 2: "size_property (init (Some 10240) 10240 ascii)
       = determine_tar_archive_size (data_size (init (Some 10240) 10240 ascii)) (bufsize (init (Some 10240) 10240 ascii))"
    using h by blast+
  have 3: "determine_tar_archive_size 512 10240 = Inr 10240" unfolding 1 c by simp
  have 4: "size_property (init (Some 10240) 10240 ascii) = determine_tar_archive_size 0 10240"
    unfolding 2 by (simp add: init_def)
  show ?thesis using h 3 4 by blast
qed

text \<open>
  C8, as stated, fails in its second half: for the block size \<open>2 ^ 1085\<close> the function
  returns 0 for an empty payload, not the block size.
\<close>

theorem archive_size_empty_counterexample:
  "(1024::int) \<le> 2 ^ 1085
   \<and> determine_tar_archive_size 0 (2 ^ 1085) = Inr 0
   \<and> determine_tar_archive_size 0 (2 ^ 1085) \<noteq> Inr (2 ^ 1085)"
  using py_truediv_underflow by (simp add: determine_tar_archive_size_def math_ceil_def)

lemma determine_tar_archive_size_mono:
  assumes "0 < b" "t1 \<le> t2"
    and "determine_tar_archive_size t1 b = Inr r1" "determine_tar_archive_size t2 b = Inr r2"
  shows "r1 \<le> r2"
proof -
  obtain q1 where q1: "py_truediv (t1 + 512 * 2) b = Inr q1" "r1 = b * math_ceil q1"
    using assms(3) by (auto simp: determine_tar_archive_size_def split: sum.splits)
  obtain q2 where q2: "py_truediv (t2 + 512 * 2) b = Inr q2" "r2 = b * math_ceil q2"
    using assms(4) by (auto simp: determine_tar_archive_size_def split: sum.splits)
  have "q1 \<le> q2" using assms(1) _ q1(1) q2(1) by (rule py_truediv_mono) (use assms(2) in simp)
  then have "math_ceil q1 \<le> math_ceil q2" unfolding math_ceil_def by (rule ceiling_mono)
  then show ?thesis using assms(1) by (simp add: q1(2) q2(2) mult_left_mono)
qed

text \<open>
  C8, amended: for a positive block size, of two payloads for which the function
  returns, the larger one never gets the smaller result; and for a block size with
  \<open>1024 \<le> block_size < 2 ^ 1085\<close> the function returns the block size for an empty
  payload.
\<close>

theorem archive_size_monotone:
  "(0 < block_size \<and> t1 \<le> t2 \<and> determine_tar_archive_size t1 block_size = Inr r1
      \<and> determine_tar_archive_size t2 block_size = Inr r2 \<longrightarrow> r1 \<le> r2)
   \<and> (1024 \<le> block_size \<and> block_size < 2 ^ 1085 \<longrightarrow>
        determine_tar_archive_size 0 block_size = Inr block_size)"
proof (intro conjI impI)
  assume "0 < block_size \<and> t1 \<le> t2 \<and> determine_tar_archive_size t1 block_size = Inr r1
      \<and> determine_tar_archive_size t2 block_size = Inr r2"
  then show "r1 \<le> r2" using determine_tar_archive_size_mono by blast
next
  assume h: "1024 \<le> block_size \<and> block_size < 2 ^ 1085"
  then have "(of_int block_size :: rat) < 2 ^ 1085"
    by (metis of_int_less_iff of_int_numeral of_int_power)
  then have "of_int block_size < (of_int (0 + 1024) * 2 ^ 1075 :: rat)" by simp
  then have "determine_tar_archive_size 0 block_size
      = Inr (block_size * \<lceil>(of_int (0 + 1024) / of_int block_size :: rat)\<rceil>)"
    using h by (intro determine_tar_archive_size_exact) simp_all
  moreover have "\<lceil>(of_int (0 + 1024) / of_int block_size :: rat)\<rceil> = 1"
  proof (rule ceiling_unique)
    have B: "(1024 :: rat) \<le> of_int block_size" using h by simp
    then show "(of_int 1 :: rat) - 1 < of_int (0 + 1024) / of_int block_size" by simp
    show "(of_int (0 + 1024) / of_int block_size :: rat) \<le> of_int 1" using B by simp
  qed
  ultimately show "determine_tar_archive_size 0 block_size = Inr block_size" by simp
qed

theorem archive_size_monotone_witness:
  "(0::int) < 10240 \<and> (0::int) \<le> 20000
   \<and> determine_tar_archive_size 0 10240 = Inr 10240
   \<and> determine_tar_archive_size 20000 10240 = Inr 30720
   \<and> (10240::int) \<le> 30720
   \<and> (1024::int) \<le> 10240 \<and> (10240::int) < 2 ^ 1085"
proof -
  have a: "determine_tar_archive_size 0 10240 = Inr 10240"
    and b: "determine_tar_archive_size 20000 10240 = Inr 30720"
    by (simp_all add: determine_tar_archive_size_div)
  have h: "(0::int) < 10240 \<and> (0::int) \<le> 20000 \<and> (1024::int) \<le> 10240 \<and> (10240::int) < 2 ^ 1085"
    by simp
  have "(10240::int) \<le> 30720"
    using archive_size_monotone [of 10240 0 20000 10240 30720] a b h by blast
  moreover have "determine_tar_archive_size 0 10240 = Inr 10240"
    using archive_size_monotone [of 10240 0 20000 10240 30720] h by blast
  ultimately show ?thesis using b h by blast
qed

section \<open>Admitting a path\<close>

text \<open>
  C3, as stated, fails for the size limit 0: the archive with the empty file would
  have 10240 bytes, more than the limit, yet \<^verbatim>\<open>add_path\<close> raises nothing and commits the
  512 bytes of the file.
\<close>

theorem size_limit_zero_counterexample:
  "size_limit (init (Some 0) 10240 ascii) = Some 0
   \<and> ascii (str ''empty'') = Some ''empty''
   \<and> determine_tar_file_size example_fs ''empty'' = Inr 512
   \<and> determine_tar_archive_size (data_size (init (Some 0) 10240 ascii) + 512)
         (bufsize (init (Some 0) 10240 ascii)) = Inr 10240
   \<and> (0::int) < 10240
   \<and> fst (add_path example_fs (init (Some 0) 10240 ascii) (str ''empty'')) = None
   \<and> data_size (snd (add_path example_fs (init (Some 0) 10240 ascii) (str ''empty''))) = 512"
  by (simp add: add_path_def ascii_str determine_tar_archive_size_div over_size_limit_def)

text \<open>
  C3, amended: if the size limit is set and is not zero, and the archive size computed
  from the predicted data size plus the size of the file exceeds the limit, then
  \<^verbatim>\<open>add_path\<close> raises \<^verbatim>\<open>SizeLimitReached\<close> and leaves the object as it was: the predicted
  data size is unchanged and nothing is put on the queue.
\<close>

theorem add_path_size_limit_reached:
  "size_limit self = Some limit \<and> limit \<noteq> 0
   \<and> encoding self path = Some encoded
   \<and> determine_tar_file_size fs encoded = Inr tar_file_size
   \<and> determine_tar_archive_size (data_size self + tar_file_size) (bufsize self) = Inr archive_size
   \<and> limit < archive_size
   \<longrightarrow> add_path fs self path = (Some SizeLimitReached, self)"
  by (simp add: add_path_def over_size_limit_def)

theorem add_path_size_limit_reached_witness:
  "size_limit (init (Some 10240) 10240 ascii) = Some 10240 \<and> (10240::int) \<noteq> 0
   \<and> encoding (init (Some 10240) 10240 ascii) (str ''kib'') = Some ''kib''
   \<and> determine_tar_file_size example_fs ''kib'' = Inr 1536
   \<and> determine_tar_archive_size
         (data_size ((init (Some 10240) 10240 ascii)\<lparr>data_size := 8192\<rparr>) + 1536)
         (bufsize (init (Some 10240) 10240 ascii)) = Inr 20480
   \<and> (10240::int) < 20480
   \<and> add_path example_fs ((init (Some 10240) 10240 ascii)\<lparr>data_size := 8192\<rparr>) (str ''kib'')
       = (Some SizeLimitReached, (init (Some 10240) 10240 ascii)\<lparr>data_size := 8192\<rparr>)"
proof -
  let ?self = "(init (Some 10240) 10240 ascii)\<lparr>data_size := 8192\<rparr>"
  have h: "size_limit ?self = Some 10240 \<and> (10240::int) \<noteq> 0
     \<and> encoding ?self (str ''kib'') = Some ''kib''
     \<and> determine_tar_file_size example_fs ''kib'' = Inr 1536
     \<and> determine_tar_archive_size (data_size ?self + 1536) (bufsize ?self) = Inr 20480
     \<and> (10240::int) < 20480"
    by (simp add: ascii_str determine_tar_archive_size_div)
  with add_path_size_limit_reached [of ?self 10240 "str ''kib''" "''kib''" example_fs 1536 20480]
  have "add_path example_fs ?self (str ''kib'') = (Some SizeLimitReached, ?self)" by blast
  with h show ?thesis by simp
qed

text \<open>
  C10. With \<^verbatim>\<open>size_limit = 0\<close> the method \<^verbatim>\<open>add_path\<close> never raises \<^verbatim>\<open>SizeLimitReached\<close>,
  whatever the path: it raises what it raises without a limit (\<^verbatim>\<open>size_limit = None\<close>), and
  leaves the same predicted data size and the same queue behind.
\<close>

theorem add_path_zero_limit:
  "fst (add_path fs (self\<lparr>size_limit := Some 0\<rparr>) path) \<noteq> Some SizeLimitReached
   \<and> fst (add_path fs (self\<lparr>size_limit := Some 0\<rparr>) path)
       = fst (add_path fs (self\<lparr>size_limit := None\<rparr>) path)
   \<and> data_size (snd (add_path fs (self\<lparr>size_limit := Some 0\<rparr>) path))
       = data_size (snd (add_path fs (self\<lparr>size_limit := None\<rparr>) path))
   \<and> path_queue (snd (add_path fs (self\<lparr>size_limit := Some 0\<rparr>) path))
       = path_queue (snd (add_path fs (self\<lparr>size_limit := None\<rparr>) path))"
  by (auto simp: add_path_def over_size_limit_def Let_def
      split: option.splits sum.splits
      dest: determine_tar_file_size_error determine_tar_archive_size_error)

lemma add_path_fields:
  "size_limit (snd (add_path fs self path)) = size_limit self"
  "bufsize (snd (add_path fs self path)) = bufsize self"
  "encoding (snd (add_path fs self path)) = encoding self"
  by (simp_all add: add_path_def Let_def split: option.splits sum.splits)

lemma add_path_admitted:
  assumes "add_path fs self path = (None, self')"
  shows "\<exists>n. tar_file_size_of fs (encoding self) path = Inr n
           \<and> data_size self' = data_size self + n
           \<and> path_queue self' = path_queue self @ [path]"
  using assms
  by (auto simp: add_path_def tar_file_size_of_def Let_def
      split: option.splits sum.splits if_splits)

lemma add_path_sequence_sum:
  "add_path_sequence fs self paths = (None, self') \<Longrightarrow>
     \<exists>sizes. map (tar_file_size_of fs (encoding self)) paths = map Inr sizes
        \<and> data_size self' = data_size self + sum_list sizes
        \<and> bufsize self' = bufsize self"
proof (induction paths arbitrary: self)
  case Nil
  then show ?case by simp
next
  case (Cons path paths)
  obtain e self1 where a: "add_path fs self path = (e, self1)" by (cases "add_path fs self path")
  with Cons.prems have e: "e = None" and r: "add_path_sequence fs self1 paths = (None, self')"
    by (auto split: option.splits)
  from a e obtain n where n: "tar_file_size_of fs (encoding self) path = Inr n"
      "data_size self1 = data_size self + n"
    using add_path_admitted by blast
  have f: "encoding self1 = encoding self" "bufsize self1 = bufsize self"
    using add_path_fields [of fs self path] a by simp_all
  from Cons.IH [OF r] obtain sizes where
    s: "map (tar_file_size_of fs (encoding self1)) paths = map Inr sizes"
       "data_size self' = data_size self1 + sum_list sizes" "bufsize self' = bufsize self1"
    by blast
  have "map (tar_file_size_of fs (encoding self)) (path # paths) = map Inr (n # sizes)"
    using n(1) s(1) f(1) by simp
  moreover have "data_size self' = data_size self + sum_list (n # sizes)"
    using n(2) s(2) by simp
  moreover have "bufsize self' = bufsize self" using s(3) f(2) by simp
  ultimately show ?case by blast
qed

text \<open>
  C4. When \<^verbatim>\<open>add_path\<close> has admitted every path of a list, one after the other, on a
  new object, the predicted data size is the sum of the sizes computed for the paths,
  and the property \<^verbatim>\<open>size\<close> is \<^verbatim>\<open>determine_tar_archive_size\<close> of that sum and the block
  size.
\<close>

theorem data_size_is_sum:
  "add_path_sequence fs (init limit block_size codec) paths = (None, self') \<longrightarrow>
     (\<exists>sizes. map (tar_file_size_of fs codec) paths = map Inr sizes
        \<and> data_size self' = sum_list sizes
        \<and> size_property self' = determine_tar_archive_size (sum_list sizes) block_size)"
proof
  assume "add_path_sequence fs (init limit block_size codec) paths = (None, self')"
  from add_path_sequence_sum [OF this] obtain sizes where
    "map (tar_file_size_of fs codec) paths = map Inr sizes"
    "data_size self' = sum_list sizes" "bufsize self' = block_size"
    by auto
  then show "\<exists>sizes. map (tar_file_size_of fs codec) paths = map Inr sizes
        \<and> data_size self' = sum_list sizes
        \<and> size_property self' = determine_tar_archive_size (sum_list sizes) block_size"
    by (auto simp: size_property_def)
qed

theorem data_size_is_sum_witness:
  "add_path_sequence example_fs (init (Some 10240) 10240 ascii)
       [str ''empty'', str ''kib'', str ''dir'']
     = (None, \<lparr>size_limit = Some 10240, bufsize = 10240, encoding = ascii,
          path_queue = [str ''empty'', str ''kib'', str ''dir''], data_size = 2560\<rparr>)
   \<and> map (tar_file_size_of example_fs ascii) [str ''empty'', str ''kib'', str ''dir'']
       = map Inr [512, 1536, 512]
   \<and> (2560::int) = sum_list [512, 1536, 512]
   \<and> size_property \<lparr>size_limit = Some 10240, bufsize = 10240, encoding = ascii,
          path_queue = [str ''empty'', str ''kib'', str ''dir''], data_size = 2560\<rparr>
       = determine_tar_archive_size (sum_list [512, 1536, 512]) 10240"
proof -
  let ?paths = "[str ''empty'', str ''kib'', str ''dir'']"
  let ?end = "\<lparr>size_limit = Some 10240, bufsize = 10240, encoding = ascii,
          path_queue = ?paths, data_size = 2560\<rparr>"
  have run: "add_path_sequence example_fs (init (Some 10240) 10240 ascii) ?paths = (None, ?end)"
    by (simp add: add_path_def ascii_str determine_tar_archive_size_div over_size_limit_def init_def)
  have m: "map (tar_file_size_of example_fs ascii) ?paths = map Inr [512, 1536, 512]"
    by (simp add: tar_file_size_of_def ascii_str)
  from data_size_is_sum [of example_fs "Some 10240" 10240 ascii ?paths ?end] run
  obtain sizes where s: "map (tar_file_size_of example_fs ascii) ?paths = map Inr sizes"
    "data_size ?end = sum_list sizes"
    "size_property ?end = determine_tar_archive_size (sum_list sizes) 10240"
    by blast
  from s(1) m have "map Inr sizes = (map Inr [512, 1536, 512] :: (py_error + int) list)" by simp
  then have "sizes = [512, 1536, 512]" by (rule map_injective) simp
  with s run m show ?thesis by simp
qed

section \<open>Feeding many paths\<close>

lemma emit_simps [simp]:
  "fst (emit evs r) = evs @ fst r"
  "fst (snd (emit evs r)) = fst (snd r)"
  "snd (snd (emit evs r)) = snd (snd r)"
  by (simp_all add: emit_def split: prod.splits)

lemma worker_takes_simps [simp]:
  "size_limit (worker_takes k self) = size_limit self"
  "bufsize (worker_takes k self) = bufsize self"
  "encoding (worker_takes k self) = encoding self"
  "data_size (worker_takes k self) = data_size self"
  "path_queue (worker_takes k self) = drop k (path_queue self)"
  by (simp_all add: worker_takes_def)

lemma yielded_append [simp]: "yielded (evs @ evs') = yielded evs @ yielded evs'"
  by (induction evs rule: yielded.induct) simp_all

lemma attempted_append [simp]: "attempted (evs @ evs') = attempted evs @ attempted evs'"
  by (induction evs rule: attempted.induct) simp_all

lemma yielded_map_Yield [simp]: "yielded (map (\<lambda>p. Yield p e) ps) = map (\<lambda>p. (p, e)) ps"
  by (induction ps) simp_all

lemma attempted_map_Yield [simp]: "attempted (map (\<lambda>p. Yield p e) ps) = []"
  by (induction ps) simp_all

lemma add_paths_loop_halted:
  "fst (add_paths_loop fs flags taken i paths self True exception)
     = map (\<lambda>p. Yield p exception) (filter (\<lambda>p. p \<noteq> []) paths)
   \<and> data_size (fst (snd (add_paths_loop fs flags taken i paths self True exception)))
       = data_size self
   \<and> snd (snd (add_paths_loop fs flags taken i paths self True exception)) = None"
  by (induction paths arbitrary: i self) (simp_all add: Let_def)

text \<open>The queue plays no part in what \<^verbatim>\<open>add_path\<close> raises or adds.\<close>

lemma add_path_queue:
  "fst (add_path fs (self\<lparr>path_queue := q\<rparr>) path) = fst (add_path fs self path)"
  "data_size (snd (add_path fs (self\<lparr>path_queue := q\<rparr>) path))
     = data_size (snd (add_path fs self path))"
  "size_limit (snd (add_path fs (self\<lparr>path_queue := q\<rparr>) path)) = size_limit self"
  "bufsize (snd (add_path fs (self\<lparr>path_queue := q\<rparr>) path)) = bufsize self"
  "encoding (snd (add_path fs (self\<lparr>path_queue := q\<rparr>) path)) = encoding self"
  by (simp_all add: add_path_def Let_def split: option.splits sum.splits)

lemma add_path_same:
  assumes "size_limit s = size_limit t" "bufsize s = bufsize t" "encoding s = encoding t"
    "data_size s = data_size t"
  shows "fst (add_path fs s path) = fst (add_path fs t path)"
    and "data_size (snd (add_path fs s path)) = data_size (snd (add_path fs t path))"
    and "size_limit (snd (add_path fs s path)) = size_limit (snd (add_path fs t path))"
    and "bufsize (snd (add_path fs s path)) = bufsize (snd (add_path fs t path))"
    and "encoding (snd (add_path fs s path)) = encoding (snd (add_path fs t path))"
  using assms by (simp_all add: add_path_def Let_def split: option.splits sum.splits)

lemma add_path_raises_unchanged: "fst (add_path fs self path) = Some e \<Longrightarrow> snd (add_path fs self path) = self"
  by (auto simp: add_path_def Let_def split: option.splits sum.splits if_splits)

lemma add_paths_loop_size_limit_halts:
  assumes "path \<noteq> []" "\<not> halt" "halt_on_size_limit_reached flags"
    and "fst (add_path fs (worker_takes (taken i) self) path) = Some SizeLimitReached"
  shows "fst (add_paths_loop fs flags taken i (path # paths) self halt exception)
     = Attempt path # Yield path (Some SizeLimitReached)
       # map (\<lambda>p. Yield p (Some SizeLimitReached)) (filter (\<lambda>p. p \<noteq> []) paths)"
proof -
  obtain s' where a: "add_path fs (worker_takes (taken i) self) path = (Some SizeLimitReached, s')"
    using assms(4) by (cases "add_path fs (worker_takes (taken i) self) path") simp
  show ?thesis
    using assms(1-3) a by (simp add: Let_def add_paths_loop_halted)
qed

lemma add_paths_loop_os_error_halts:
  assumes "path \<noteq> []" "\<not> halt" "halt_on_os_error flags"
    and "fst (add_path fs (worker_takes (taken i) self) path) = Some OSError"
  shows "fst (add_paths_loop fs flags taken i (path # paths) self halt exception)
     = Attempt path # Yield path (Some OSError)
       # map (\<lambda>p. Yield p (Some OSError)) (filter (\<lambda>p. p \<noteq> []) paths)"
proof -
  obtain s' where a: "add_path fs (worker_takes (taken i) self) path = (Some OSError, s')"
    using assms(4) by (cases "add_path fs (worker_takes (taken i) self) path") simp
  show ?thesis
    using assms(1-3) a by (simp add: Let_def add_paths_loop_halted)
qed

lemma add_paths_loop_admits:
  assumes "path \<noteq> []" "\<not> halt" "i \<le> 10 \<or> \<not> halt_on_underrun flags"
    and "add_path fs (worker_takes (taken i) self) path = (None, self')"
  shows "add_paths_loop fs flags taken i (path # paths) self halt exception
     = emit [Attempt path] (add_paths_loop fs flags taken (i + 1) paths self' halt exception)"
  using assms by (auto simp: Let_def)

text \<open>
  At a path where the underrun is detected the loop goes on to the \<^verbatim>\<open>try\<close> statement: if
  \<^verbatim>\<open>add_path\<close> raises nothing the path is admitted, the \<^verbatim>\<open>else: continue\<close> skips the
  \<^verbatim>\<open>yield\<close>, and the generator is halted only from the next path on.
\<close>

lemma add_paths_loop_underrun_admits:
  assumes "path \<noteq> []" "\<not> halt" "10 < i" "halt_on_underrun flags"
    and "path_queue (worker_takes (taken i) self) = []"
    and "add_path fs (worker_takes (taken i) self) path = (None, self')"
  shows "add_paths_loop fs flags taken i (path # paths) self halt exception
     = emit [Attempt path]
         (add_paths_loop fs flags taken (i + 1) paths self' True (Some Underrun))"
  using assms by (simp add: Let_def)

lemma scenario_eval:
  "add_paths example_fs (no_halt\<lparr>halt_on_size_limit_reached := True\<rparr>) worker_idle
      (init (Some 2560) 512 ascii) [str ''empty'', str ''kib'', str ''dir'']
   = ([Attempt (str ''empty''), Attempt (str ''kib''), Yield (str ''kib'') (Some SizeLimitReached),
       Yield (str ''dir'') (Some SizeLimitReached)],
      \<lparr>size_limit = Some 2560, bufsize = 512, encoding = ascii,
        path_queue = [str ''empty''], data_size = 512\<rparr>, None)"
  by (simp add: example_eval)

lemma underrun_eval:
  "add_paths example_fs (no_halt\<lparr>halt_on_underrun := True\<rparr>) worker_keeps_up
      (init None 10240 ascii)
      [str ''p0'', str ''p1'', str ''p2'', str ''p3'', str ''p4'', str ''p5'', str ''p6'',
       str ''p7'', str ''p8'', str ''p9'', str ''pa'', str ''pb'', str ''pc'']
   = ([Attempt (str ''p0''), Attempt (str ''p1''), Attempt (str ''p2''), Attempt (str ''p3''),
       Attempt (str ''p4''), Attempt (str ''p5''), Attempt (str ''p6''), Attempt (str ''p7''),
       Attempt (str ''p8''), Attempt (str ''p9''), Attempt (str ''pa''), Attempt (str ''pb''),
       Yield (str ''pc'') (Some Underrun)],
      \<lparr>size_limit = None, bufsize = 10240, encoding = ascii,
        path_queue = [], data_size = 6144\<rparr>, None)"
  by (simp add: example_eval)

text \<open>
  C5, as stated, fails at the path that triggers the halt. With
  \<^verbatim>\<open>halt_on_size_limit_reached\<close>, the path that exceeds the limit is yielded after a call of
  \<^verbatim>\<open>add_path\<close> for it, the call that raised. With \<^verbatim>\<open>halt_on_underrun\<close>, thirteen files that all
  fit and a worker that empties the queue, the underrun is detected at the twelfth path
  (index 11): \<^verbatim>\<open>add_path\<close> is called for it, it is admitted and never yielded; only the
  thirteenth path is yielded.
\<close>

theorem halting_path_attempted_counterexample:
  "attempted (fst (add_paths example_fs (no_halt\<lparr>halt_on_size_limit_reached := True\<rparr>) worker_idle
      (init (Some 2560) 512 ascii) [str ''empty'', str ''kib'', str ''dir'']))
     = [str ''empty'', str ''kib'']
   \<and> yielded (fst (add_paths example_fs (no_halt\<lparr>halt_on_size_limit_reached := True\<rparr>) worker_idle
      (init (Some 2560) 512 ascii) [str ''empty'', str ''kib'', str ''dir'']))
     = [(str ''kib'', Some SizeLimitReached), (str ''dir'', Some SizeLimitReached)]
   \<and> attempted (fst (add_paths example_fs (no_halt\<lparr>halt_on_underrun := True\<rparr>) worker_keeps_up
      (init None 10240 ascii)
      [str ''p0'', str ''p1'', str ''p2'', str ''p3'', str ''p4'', str ''p5'', str ''p6'',
       str ''p7'', str ''p8'', str ''p9'', str ''pa'', str ''pb'', str ''pc'']))
     = [str ''p0'', str ''p1'', str ''p2'', str ''p3'', str ''p4'', str ''p5'', str ''p6'',
       str ''p7'', str ''p8'', str ''p9'', str ''pa'', str ''pb'']
   \<and> yielded (fst (add_paths example_fs (no_halt\<lparr>halt_on_underrun := True\<rparr>) worker_keeps_up
      (init None 10240 ascii)
      [str ''p0'', str ''p1'', str ''p2'', str ''p3'', str ''p4'', str ''p5'', str ''p6'',
       str ''p7'', str ''p8'', str ''p9'', str ''pa'', str ''pb'', str ''pc'']))
     = [(str ''pc'', Some Underrun)]"
  by (simp add: scenario_eval underrun_eval)

text \<open>
  C5, amended. Once \<^verbatim>\<open>halt\<close> is true, every further path that is not empty is yielded, in
  order, with no call of \<^verbatim>\<open>add_path\<close>. A path for which \<^verbatim>\<open>add_path\<close> raises
  \<^verbatim>\<open>SizeLimitReached\<close> while \<^verbatim>\<open>halt_on_size_limit_reached\<close> is set (or \<^verbatim>\<open>OSError\<close> while
  \<^verbatim>\<open>halt_on_os_error\<close> is set) is yielded after that one call, and so is every path after
  it, with no call. In particular, with \<^verbatim>\<open>halt_on_size_limit_reached\<close>, feeding a path that
  fits, one that exceeds the limit and a third one yields the second and then the third,
  and \<^verbatim>\<open>add_path\<close> is called for the first and the second only. (The path at which an
  underrun is detected is not covered.)
\<close>

theorem halted_paths_are_yielded:
  "fst (add_paths_loop fs flags taken i paths self True exception)
     = map (\<lambda>p. Yield p exception) (filter (\<lambda>p. p \<noteq> []) paths)
   \<and> (path \<noteq> [] \<and> halt_on_size_limit_reached flags
        \<and> fst (add_path fs (worker_takes (taken i) self) path) = Some SizeLimitReached \<longrightarrow>
      fst (add_paths_loop fs flags taken i (path # paths) self False exception)
        = Attempt path # Yield path (Some SizeLimitReached)
          # map (\<lambda>p. Yield p (Some SizeLimitReached)) (filter (\<lambda>p. p \<noteq> []) paths))
   \<and> (path \<noteq> [] \<and> halt_on_os_error flags
        \<and> fst (add_path fs (worker_takes (taken i) self) path) = Some OSError \<longrightarrow>
      fst (add_paths_loop fs flags taken i (path # paths) self False exception)
        = Attempt path # Yield path (Some OSError)
          # map (\<lambda>p. Yield p (Some OSError)) (filter (\<lambda>p. p \<noteq> []) paths))
   \<and> (a \<noteq> [] \<and> b \<noteq> [] \<and> c \<noteq> [] \<and> halt_on_size_limit_reached flags
        \<and> fst (add_path fs self a) = None
        \<and> fst (add_path fs (snd (add_path fs self a)) b) = Some SizeLimitReached \<longrightarrow>
      yielded (fst (add_paths fs flags taken self [a, b, c]))
        = [(b, Some SizeLimitReached), (c, Some SizeLimitReached)]
      \<and> attempted (fst (add_paths fs flags taken self [a, b, c])) = [a, b])"
proof (intro conjI impI)
  show "fst (add_paths_loop fs flags taken i paths self True exception)
     = map (\<lambda>p. Yield p exception) (filter (\<lambda>p. p \<noteq> []) paths)"
    by (simp add: add_paths_loop_halted)
next
  assume "path \<noteq> [] \<and> halt_on_size_limit_reached flags
        \<and> fst (add_path fs (worker_takes (taken i) self) path) = Some SizeLimitReached"
  then show "fst (add_paths_loop fs flags taken i (path # paths) self False exception)
        = Attempt path # Yield path (Some SizeLimitReached)
          # map (\<lambda>p. Yield p (Some SizeLimitReached)) (filter (\<lambda>p. p \<noteq> []) paths)"
    by (intro add_paths_loop_size_limit_halts) simp_all
next
  assume "path \<noteq> [] \<and> halt_on_os_error flags
        \<and> fst (add_path fs (worker_takes (taken i) self) path) = Some OSError"
  then show "fst (add_paths_loop fs flags taken i (path # paths) self False exception)
        = Attempt path # Yield path (Some OSError)
          # map (\<lambda>p. Yield p (Some OSError)) (filter (\<lambda>p. p \<noteq> []) paths)"
    by (intro add_paths_loop_os_error_halts) simp_all
next
  assume h: "a \<noteq> [] \<and> b \<noteq> [] \<and> c \<noteq> [] \<and> halt_on_size_limit_reached flags
        \<and> fst (add_path fs self a) = None
        \<and> fst (add_path fs (snd (add_path fs self a)) b) = Some SizeLimitReached"
  define s0 where "s0 = worker_takes (taken 0) self"
  obtain e1 s1 where a1: "add_path fs s0 a = (e1, s1)" by (cases "add_path fs s0 a")
  have same0: "size_limit s0 = size_limit self" "bufsize s0 = bufsize self"
    "encoding s0 = encoding self" "data_size s0 = data_size self"
    by (simp_all add: s0_def)
  have "e1 = fst (add_path fs self a)"
    using add_path_same(1) [OF same0, of fs a] a1 by simp
  with h have e1: "e1 = None" by simp
  have same1: "size_limit s1 = size_limit (snd (add_path fs self a))"
    "bufsize s1 = bufsize (snd (add_path fs self a))"
    "encoding s1 = encoding (snd (add_path fs self a))"
    "data_size s1 = data_size (snd (add_path fs self a))"
    using add_path_same(2-5) [OF same0, of fs a] a1 by simp_all
  define s1' where "s1' = worker_takes (taken (0 + 1)) s1"
  have same1': "size_limit s1' = size_limit (snd (add_path fs self a))"
    "bufsize s1' = bufsize (snd (add_path fs self a))"
    "encoding s1' = encoding (snd (add_path fs self a))"
    "data_size s1' = data_size (snd (add_path fs self a))"
    using same1 by (simp_all add: s1'_def)
  have b: "fst (add_path fs s1' b) = Some SizeLimitReached"
    using add_path_same(1) [OF same1', of fs b] h by simp
  have "add_paths fs flags taken self [a, b, c]
      = emit [Attempt a] (add_paths_loop fs flags taken (0 + 1) [b, c] s1 False None)"
    unfolding add_paths_def using h a1 e1
    by (intro add_paths_loop_admits) (simp_all add: s0_def)
  moreover have "fst (add_paths_loop fs flags taken (0 + 1) (b # [c]) s1 False None)
      = Attempt b # Yield b (Some SizeLimitReached)
        # map (\<lambda>p. Yield p (Some SizeLimitReached)) (filter (\<lambda>p. p \<noteq> []) [c])"
    using h b by (intro add_paths_loop_size_limit_halts) (simp_all add: s1'_def)
  ultimately have ev: "fst (add_paths fs flags taken self [a, b, c])
      = [Attempt a, Attempt b, Yield b (Some SizeLimitReached), Yield c (Some SizeLimitReached)]"
    using h by simp
  show "yielded (fst (add_paths fs flags taken self [a, b, c]))
        = [(b, Some SizeLimitReached), (c, Some SizeLimitReached)]"
    by (simp add: ev)
  show "attempted (fst (add_paths fs flags taken self [a, b, c])) = [a, b]"
    by (simp add: ev)
qed

theorem halted_paths_are_yielded_witness:
  "fst (add_paths_loop example_fs (no_halt\<lparr>halt_on_size_limit_reached := True, halt_on_os_error := True\<rparr>)
          worker_idle 1 [str ''dir'', [], str ''one''] (init (Some 2560) 512 ascii) True
          (Some SizeLimitReached))
     = [Yield (str ''dir'') (Some SizeLimitReached), Yield (str ''one'') (Some SizeLimitReached)]
   \<and> str ''kib'' \<noteq> []
   \<and> halt_on_size_limit_reached (no_halt\<lparr>halt_on_size_limit_reached := True, halt_on_os_error := True\<rparr>)
   \<and> fst (add_path example_fs
            (worker_takes (worker_idle 1) ((init (Some 2560) 512 ascii)\<lparr>data_size := 512\<rparr>))
            (str ''kib'')) = Some SizeLimitReached
   \<and> fst (add_paths_loop example_fs (no_halt\<lparr>halt_on_size_limit_reached := True, halt_on_os_error := True\<rparr>)
          worker_idle 1 [str ''kib'', str ''dir''] ((init (Some 2560) 512 ascii)\<lparr>data_size := 512\<rparr>)
          False None)
     = [Attempt (str ''kib''), Yield (str ''kib'') (Some SizeLimitReached),
        Yield (str ''dir'') (Some SizeLimitReached)]
   \<and> str ''gone'' \<noteq> []
   \<and> halt_on_os_error (no_halt\<lparr>halt_on_size_limit_reached := True, halt_on_os_error := True\<rparr>)
   \<and> fst (add_path example_fs (worker_takes (worker_idle 1) (init (Some 2560) 512 ascii))
            (str ''gone'')) = Some OSError
   \<and> fst (add_paths_loop example_fs (no_halt\<lparr>halt_on_size_limit_reached := True, halt_on_os_error := True\<rparr>)
          worker_idle 1 [str ''gone'', str ''dir''] (init (Some 2560) 512 ascii) False None)
     = [Attempt (str ''gone''), Yield (str ''gone'') (Some OSError),
        Yield (str ''dir'') (Some OSError)]
   \<and> str ''empty'' \<noteq> [] \<and> str ''dir'' \<noteq> []
   \<and> fst (add_path example_fs (init (Some 2560) 512 ascii) (str ''empty'')) = None
   \<and> fst (add_path example_fs (snd (add_path example_fs (init (Some 2560) 512 ascii) (str ''empty'')))
            (str ''kib'')) = Some SizeLimitReached
   \<and> yielded (fst (add_paths example_fs
          (no_halt\<lparr>halt_on_size_limit_reached := True, halt_on_os_error := True\<rparr>) worker_idle
          (init (Some 2560) 512 ascii) [str ''empty'', str ''kib'', str ''dir'']))
     = [(str ''kib'', Some SizeLimitReached), (str ''dir'', Some SizeLimitReached)]
   \<and> attempted (fst (add_paths example_fs
          (no_halt\<lparr>halt_on_size_limit_reached := True, halt_on_os_error := True\<rparr>) worker_idle
          (init (Some 2560) 512 ascii) [str ''empty'', str ''kib'', str ''dir'']))
     = [str ''empty'', str ''kib'']"
proof -
  let ?flags = "no_halt\<lparr>halt_on_size_limit_reached := True, halt_on_os_error := True\<rparr>"
  let ?new = "init (Some 2560) 512 ascii"
  let ?one = "?new\<lparr>data_size := 512\<rparr>"
  have f: "halt_on_size_limit_reached ?flags" "halt_on_os_error ?flags"
    by (simp_all add: no_halt_def)
  have n: "str ''kib'' \<noteq> []" "str ''gone'' \<noteq> []" "str ''empty'' \<noteq> []" "str ''dir'' \<noteq> []"
    by simp_all
  have k: "fst (add_path example_fs (worker_takes (worker_idle 1) ?one) (str ''kib''))
      = Some SizeLimitReached"
    by (simp add: example_eval)
  have g: "fst (add_path example_fs (worker_takes (worker_idle 1) ?new) (str ''gone''))
      = Some OSError"
    by (simp add: example_eval)
  have a: "fst (add_path example_fs ?new (str ''empty'')) = None"
    by (simp add: example_eval)
  have b: "fst (add_path example_fs (snd (add_path example_fs ?new (str ''empty''))) (str ''kib''))
      = Some SizeLimitReached"
    by (simp add: example_eval)
  have 1: "fst (add_paths_loop example_fs ?flags worker_idle 1 [str ''dir'', [], str ''one''] ?new
        True (Some SizeLimitReached))
      = [Yield (str ''dir'') (Some SizeLimitReached), Yield (str ''one'') (Some SizeLimitReached)]"
    using halted_paths_are_yielded [where fs = example_fs and flags = ?flags
        and taken = worker_idle and i = 1 and paths = "[str ''dir'', [], str ''one'']"
        and self = ?new and exception = "Some SizeLimitReached"]
    by simp
  have 2: "fst (add_paths_loop example_fs ?flags worker_idle 1 [str ''kib'', str ''dir''] ?one False None)
      = [Attempt (str ''kib''), Yield (str ''kib'') (Some SizeLimitReached),
         Yield (str ''dir'') (Some SizeLimitReached)]"
    using halted_paths_are_yielded [where fs = example_fs and flags = ?flags
        and taken = worker_idle and i = 1 and path = "str ''kib''" and paths = "[str ''dir'']"
        and self = ?one and exception = None] f n k
    by simp
  have 3: "fst (add_paths_loop example_fs ?flags worker_idle 1 [str ''gone'', str ''dir''] ?new False None)
      = [Attempt (str ''gone''), Yield (str ''gone'') (Some OSError),
         Yield (str ''dir'') (Some OSError)]"
    using halted_paths_are_yielded [where fs = example_fs and flags = ?flags
        and taken = worker_idle and i = 1 and path = "str ''gone''" and paths = "[str ''dir'']"
        and self = ?new and exception = None] f n g
    by simp
  have 4: "yielded (fst (add_paths example_fs ?flags worker_idle ?new
          [str ''empty'', str ''kib'', str ''dir'']))
        = [(str ''kib'', Some SizeLimitReached), (str ''dir'', Some SizeLimitReached)]
      \<and> attempted (fst (add_paths example_fs ?flags worker_idle ?new
          [str ''empty'', str ''kib'', str ''dir''])) = [str ''empty'', str ''kib'']"
    using halted_paths_are_yielded [where fs = example_fs and flags = ?flags
        and taken = worker_idle and self = ?new and a = "str ''empty''" and b = "str ''kib''"
        and c = "str ''dir''"] f n a b
    by blast
  from f n k g a b 1 2 3 4 show ?thesis by blast
qed

text \<open>
  C6. The claim: after the first 10 items, with \<^verbatim>\<open>halt_on_underrun\<close> and an empty queue, the
  current path is yielded with the \<^verbatim>\<open>Underrun\<close> exception and is not admitted. The source
  sets \<^verbatim>\<open>halt\<close> and \<^verbatim>\<open>exception\<close> and then still calls \<^verbatim>\<open>add_path\<close> for the path. With
  twelve files that fit and a worker that empties the queue, the queue is empty when the
  twelfth path (index 11) is considered, yet all twelve paths are admitted and nothing
  is yielded. With a size limit that the twelfth file exceeds, the twelfth path is
  yielded with \<^verbatim>\<open>SizeLimitReached\<close>, not with \<^verbatim>\<open>Underrun\<close>.
\<close>

theorem underrun_path_is_admitted:
  "path_queue (worker_takes (worker_keeps_up 11)
      (fst (snd (add_paths example_fs (no_halt\<lparr>halt_on_underrun := True\<rparr>) worker_keeps_up
        (init None 10240 ascii)
        [str ''p0'', str ''p1'', str ''p2'', str ''p3'', str ''p4'', str ''p5'', str ''p6'',
         str ''p7'', str ''p8'', str ''p9'', str ''pa''])))) = []
   \<and> add_paths example_fs (no_halt\<lparr>halt_on_underrun := True\<rparr>) worker_keeps_up
        (init None 10240 ascii)
        [str ''p0'', str ''p1'', str ''p2'', str ''p3'', str ''p4'', str ''p5'', str ''p6'',
         str ''p7'', str ''p8'', str ''p9'', str ''pa'', str ''pb'']
     = ([Attempt (str ''p0''), Attempt (str ''p1''), Attempt (str ''p2''), Attempt (str ''p3''),
         Attempt (str ''p4''), Attempt (str ''p5''), Attempt (str ''p6''), Attempt (str ''p7''),
         Attempt (str ''p8''), Attempt (str ''p9''), Attempt (str ''pa''), Attempt (str ''pb'')],
        \<lparr>size_limit = None, bufsize = 10240, encoding = ascii,
          path_queue = [str ''pb''], data_size = 6144\<rparr>, None)
   \<and> yielded (fst (add_paths example_fs (no_halt\<lparr>halt_on_underrun := True\<rparr>) worker_keeps_up
        (init (Some 6656) 512 ascii)
        [str ''p0'', str ''p1'', str ''p2'', str ''p3'', str ''p4'', str ''p5'', str ''p6'',
         str ''p7'', str ''p8'', str ''p9'', str ''pa'', str ''pb'']))
     = [(str ''pb'', Some SizeLimitReached)]"
  by (simp add: example_eval)

end
